theory Spec2Isabelle
  imports Complex_Main
begin

section \<open>Text: Python strings as lists of code points\<close>

text \<open>
  A Python \<^verbatim>\<open>str\<close> is a sequence of Unicode code points, and \<^verbatim>\<open>len\<close> counts code
  points. The repository compares against Cyrillic column names and character ranges,
  so a string is modelled as a list of code points (natural numbers) rather than as a
  list of 8-bit characters. \<open>u\<close> embeds an ASCII literal.
\<close>

type_synonym uchar = nat
type_synonym ustr = "nat list"

definition u :: "string \<Rightarrow> ustr" where
  "u s = map of_char s"

datatype py_error =
    ValueError | AttributeError | TypeError | IndexError | OverflowError | UnicodeEncodeError
  | SqliteError | CryptoError | OtherError

text \<open>
  \<^verbatim>\<open>str.isspace\<close>, which is also the class \<^verbatim>\<open>\s\<close> of \<^verbatim>\<open>re\<close> on \<^verbatim>\<open>str\<close> patterns and the
  set \<^verbatim>\<open>str.strip()\<close> removes.
\<close>

definition py_isspace :: "uchar \<Rightarrow> bool" where
  "py_isspace c \<longleftrightarrow>
     (9 \<le> c \<and> c \<le> 13) \<or> (28 \<le> c \<and> c \<le> 32) \<or> c = 0x85 \<or> c = 0xA0 \<or> c = 0x1680 \<or>
     (0x2000 \<le> c \<and> c \<le> 0x200A) \<or> c = 0x2028 \<or> c = 0x2029 \<or> c = 0x202F \<or>
     c = 0x205F \<or> c = 0x3000"

definition py_strip :: "ustr \<Rightarrow> ustr" where
  "py_strip s = rev (dropWhile py_isspace (rev (dropWhile py_isspace s)))"

text \<open>
  The class \<^verbatim>\<open>\d\<close> of \<^verbatim>\<open>re\<close> on \<^verbatim>\<open>str\<close> patterns is the Unicode category Nd. Every run of
  that category is a run of ten digits \<open>0..9\<close> starting at a zero digit, except the
  mathematical digits \<open>0x1D7CE..0x1D7FF\<close>, five such runs in a row. \<open>nd_zeros\<close>
  lists the zero digits beyond ASCII (Unicode 14, the table of Python 3.11).
\<close>

definition nd_zeros :: "uchar list" where
  "nd_zeros =
    [0x660, 0x6F0, 0x7C0, 0x966, 0x9E6, 0xA66, 0xAE6, 0xB66, 0xBE6, 0xC66, 0xCE6, 0xD66,
     0xDE6, 0xE50, 0xED0, 0xF20, 0x1040, 0x1090, 0x17E0, 0x1810, 0x1946, 0x19D0, 0x1A80,
     0x1A90, 0x1B50, 0x1BB0, 0x1C40, 0x1C50, 0xA620, 0xA8D0, 0xA900, 0xA9D0, 0xA9F0,
     0xAA50, 0xABF0, 0xFF10, 0x104A0, 0x10D30, 0x11066, 0x110F0, 0x11136, 0x111D0,
     0x112F0, 0x11450, 0x114D0, 0x11650, 0x116C0, 0x11730, 0x118E0, 0x11950, 0x11C50,
     0x11D50, 0x11DA0, 0x16A60, 0x16AC0, 0x16B50,
     0x1D7CE, 0x1D7D8, 0x1D7E2, 0x1D7EC, 0x1D7F6,
     0x1E140, 0x1E2F0, 0x1E950, 0x1FBF0]"

definition ascii_digit :: "uchar \<Rightarrow> bool" where
  "ascii_digit c \<longleftrightarrow> 48 \<le> c \<and> c \<le> 57"

definition is_digit :: "uchar \<Rightarrow> bool" where
  "is_digit c \<longleftrightarrow>
     (if c < 128 then ascii_digit c else list_ex (\<lambda>z. z \<le> c \<and> c < z + 10) nd_zeros)"

definition digit_val :: "uchar \<Rightarrow> nat" where
  "digit_val c =
     (if c < 128 then c - 48
      else case find (\<lambda>z. z \<le> c \<and> c < z + 10) nd_zeros of Some z \<Rightarrow> c - z | None \<Rightarrow> 0)"

subsection \<open>int(), str() and zero-padded formatting of integers\<close>

text \<open>
  \<^verbatim>\<open>int(s)\<close> for a string, base ten: surrounding white space is skipped (the separators
  \<open>0x1C..0x1F\<close> are not white space here), then an optional sign, then decimal digits of
  any script, where single underscores may stand between two digits. Anything else
  raises \<^verbatim>\<open>ValueError\<close>. The interpreter's limit on the number of digits is not modelled.
\<close>

definition int_space :: "uchar \<Rightarrow> bool" where
  "int_space c \<longleftrightarrow> py_isspace c \<and> \<not> (28 \<le> c \<and> c \<le> 31)"

fun digits_us :: "nat \<Rightarrow> ustr \<Rightarrow> nat option" where
  "digits_us acc [] = Some acc"
| "digits_us acc (c # cs) =
     (if is_digit c then digits_us (10 * acc + digit_val c) cs
      else if c = 0x5F then
        (case cs of
           [] \<Rightarrow> None
         | d # ds \<Rightarrow> if is_digit d then digits_us (10 * acc + digit_val d) ds else None)
      else None)"

definition int_unsigned :: "ustr \<Rightarrow> nat option" where
  "int_unsigned b =
     (case b of
        [] \<Rightarrow> None
      | c # cs \<Rightarrow> if is_digit c then digits_us (digit_val c) cs else None)"

definition py_int :: "ustr \<Rightarrow> py_error + int" where
  "py_int s =
     (let t = rev (dropWhile int_space (rev (dropWhile int_space s)))
      in case t of
           [] \<Rightarrow> Inl ValueError
         | c # cs \<Rightarrow>
             if c = 0x2D then
               (case int_unsigned cs of None \<Rightarrow> Inl ValueError | Some n \<Rightarrow> Inr (- int n))
             else if c = 0x2B then
               (case int_unsigned cs of None \<Rightarrow> Inl ValueError | Some n \<Rightarrow> Inr (int n))
             else
               (case int_unsigned t of None \<Rightarrow> Inl ValueError | Some n \<Rightarrow> Inr (int n)))"

fun digits_of :: "nat \<Rightarrow> ustr" where
  "digits_of n = (if n < 10 then [48 + n] else digits_of (n div 10) @ [48 + n mod 10])"

declare digits_of.simps [simp del]

definition str_int :: "int \<Rightarrow> ustr" where
  "str_int i = (if i < 0 then 0x2D # digits_of (nat (- i)) else digits_of (nat i))"

definition zfill :: "nat \<Rightarrow> ustr \<Rightarrow> ustr" where
  "zfill w ds = replicate (w - length ds) 48 @ ds"

text \<open>\<^verbatim>\<open>f'{i:0{w}d}'\<close>: the sign, when there is one, counts towards the width.\<close>

definition format_0d :: "int \<Rightarrow> nat \<Rightarrow> ustr" where
  "format_0d i w =
     (if i < 0 then 0x2D # zfill (w - 1) (digits_of (nat (- i))) else zfill w (digits_of (nat i)))"

subsection \<open>str.split on a one-character separator\<close>

fun split_on :: "uchar \<Rightarrow> ustr \<Rightarrow> ustr list" where
  "split_on sep [] = [[]]"
| "split_on sep (c # cs) =
     (if c = sep then [] # split_on sep cs
      else case split_on sep cs of
             p # ps \<Rightarrow> (c # p) # ps
           | [] \<Rightarrow> [[c]])"

section \<open>Regular expressions as the repository uses them\<close>

text \<open>
  The patterns of the repository are sequences of literals, alternations of literals,
  character classes with \<^verbatim>\<open>+\<close> or \<^verbatim>\<open>*\<close>, one optional character, \<^verbatim>\<open>$\<close>, and groups that are
  not nested. The matcher is the backtracking one of \<^verbatim>\<open>re\<close>: alternatives in order,
  repetitions greedy (longest first, then shorter). It returns the number of characters
  consumed and the texts of the groups, in order.
\<close>

datatype atom =
    Lit ustr
  | Alts "ustr list"
  | Cls "uchar \<Rightarrow> bool"
  | Rep "uchar \<Rightarrow> bool" nat
  | Opt uchar
  | Dollar
  | GOpen
  | GClose

primrec first_some :: "('a \<Rightarrow> 'b option) \<Rightarrow> 'a list \<Rightarrow> 'b option" where
  "first_some f [] = None"
| "first_some f (x # xs) = (case f x of Some r \<Rightarrow> Some r | None \<Rightarrow> first_some f xs)"

primrec rep_try :: "(nat \<Rightarrow> 'b option) \<Rightarrow> nat \<Rightarrow> nat \<Rightarrow> 'b option" where
  "rep_try f n 0 = (if n = 0 then f 0 else None)"
| "rep_try f n (Suc k) =
     (if Suc k < n then None
      else case f (Suc k) of Some r \<Rightarrow> Some r | None \<Rightarrow> rep_try f n k)"

definition starts_with :: "ustr \<Rightarrow> ustr \<Rightarrow> bool" where
  "starts_with s l \<longleftrightarrow> take (length l) s = l"

text \<open>
  \<open>match_here as s pos opens caps\<close>: \<open>s\<close> is the text still to read, \<open>pos\<close> the number of
  characters read so far, \<open>opens\<close> the texts at the groups still open, \<open>caps\<close> the groups
  closed so far.
\<close>

fun match_here :: "atom list \<Rightarrow> ustr \<Rightarrow> nat \<Rightarrow> ustr list \<Rightarrow> ustr list \<Rightarrow> (nat \<times> ustr list) option" where
  "match_here [] s pos opens caps = Some (pos, caps)"
| "match_here (Lit l # as) s pos opens caps =
     (if starts_with s l then match_here as (drop (length l) s) (pos + length l) opens caps
      else None)"
| "match_here (Alts ls # as) s pos opens caps =
     first_some
       (\<lambda>l. if starts_with s l
             then match_here as (drop (length l) s) (pos + length l) opens caps else None) ls"
| "match_here (Cls p # as) s pos opens caps =
     (case s of
        [] \<Rightarrow> None
      | c # cs \<Rightarrow> if p c then match_here as cs (pos + 1) opens caps else None)"
| "match_here (Rep p n # as) s pos opens caps =
     rep_try (\<lambda>j. match_here as (drop j s) (pos + j) opens caps) n (length (takeWhile p s))"
| "match_here (Opt c # as) s pos opens caps =
     (case s of
        [] \<Rightarrow> match_here as s pos opens caps
      | x # xs \<Rightarrow>
          if x = c then
            (case match_here as xs (pos + 1) opens caps of
               Some r \<Rightarrow> Some r
             | None \<Rightarrow> match_here as s pos opens caps)
          else match_here as s pos opens caps)"
| "match_here (Dollar # as) s pos opens caps =
     (if s = [] \<or> s = [10] then match_here as s pos opens caps else None)"
| "match_here (GOpen # as) s pos opens caps = match_here as s pos (s # opens) caps"
| "match_here (GClose # as) s pos opens caps =
     (case opens of
        [] \<Rightarrow> None
      | t # ts \<Rightarrow> match_here as s pos ts (caps @ [take (length t - length s) t]))"

text \<open>\<^verbatim>\<open>re.match\<close>: a match at the start of the text.\<close>

definition re_match :: "atom list \<Rightarrow> ustr \<Rightarrow> (nat \<times> ustr list) option" where
  "re_match pat s = match_here pat s 0 [] []"

text \<open>
  \<^verbatim>\<open>re.finditer\<close>: the matches from left to right, each search starting where the last
  match ended. Each result is the matched text and its groups. No pattern of the
  repository matches the empty text; such a match would be passed over by one character.
\<close>

function re_finditer :: "atom list \<Rightarrow> ustr \<Rightarrow> (ustr \<times> ustr list) list" where
  "re_finditer pat s =
     (if s = [] then []
      else case re_match pat s of
             None \<Rightarrow> re_finditer pat (tl s)
           | Some (n, gs) \<Rightarrow> (take n s, gs) # re_finditer pat (drop (max 1 n) s))"
  by pat_completeness auto
termination
  by (relation "measure (\<lambda>(pat, s). length s)") auto

declare re_finditer.simps [simp del]

text \<open>\<^verbatim>\<open>re.search\<close>: the first match; \<^verbatim>\<open>re.findall\<close> without groups: the matched texts.\<close>

definition re_search :: "atom list \<Rightarrow> ustr \<Rightarrow> (ustr \<times> ustr list) option" where
  "re_search pat s = (case re_finditer pat s of [] \<Rightarrow> None | m # _ \<Rightarrow> Some m)"

definition re_findall :: "atom list \<Rightarrow> ustr \<Rightarrow> ustr list" where
  "re_findall pat s = map fst (re_finditer pat s)"

text \<open>\<^verbatim>\<open>re.split\<close>: the pieces between the matches, empty pieces included.\<close>

function re_split_from :: "atom list \<Rightarrow> ustr \<Rightarrow> ustr \<Rightarrow> ustr list" where
  "re_split_from pat piece s =
     (if s = [] then [piece]
      else case re_match pat s of
             None \<Rightarrow> re_split_from pat (piece @ [hd s]) (tl s)
           | Some (n, gs) \<Rightarrow>
               if n = 0 then re_split_from pat (piece @ [hd s]) (tl s)
               else piece # re_split_from pat [] (drop n s))"
  by pat_completeness auto
termination
  by (relation "measure (\<lambda>(pat, piece, s). length s)") auto

declare re_split_from.simps [simp del]

definition re_split :: "atom list \<Rightarrow> ustr \<Rightarrow> ustr list" where
  "re_split pat s = re_split_from pat [] s"

section \<open>Identifiers (src/ids.py)\<close>

text \<open>\<^verbatim>\<open>_ID_RE = re.compile(r'^\d{4}-\d+$')\<close>, used with \<^verbatim>\<open>match\<close>.\<close>

definition ID_RE :: "atom list" where
  "ID_RE = [Cls is_digit, Cls is_digit, Cls is_digit, Cls is_digit, Lit (u ''-''),
            Rep is_digit 1, Dollar]"

definition validate_vuln_id :: "ustr \<Rightarrow> bool" where
  "validate_vuln_id vuln_id \<longleftrightarrow> re_match ID_RE vuln_id \<noteq> None"

text \<open>
  \<^verbatim>\<open>year_str, num_str = vuln_id.split('-')\<close> raises \<^verbatim>\<open>ValueError\<close> unless there are exactly
  two parts.
\<close>

definition split_id :: "ustr \<Rightarrow> py_error + (int \<times> int \<times> nat)" where
  "split_id vuln_id =
     (case split_on 0x2D vuln_id of
        [year_str, num_str] \<Rightarrow>
          (case py_int year_str of
             Inl e \<Rightarrow> Inl e
           | Inr year \<Rightarrow>
               (case py_int num_str of
                  Inl e \<Rightarrow> Inl e
                | Inr num \<Rightarrow> Inr (year, num, length num_str)))
      | _ \<Rightarrow> Inl ValueError)"

definition format_id :: "int \<Rightarrow> int \<Rightarrow> nat \<Rightarrow> ustr" where
  "format_id year num width = str_int year @ u ''-'' @ format_0d num width"

definition subtract_steps :: "ustr \<Rightarrow> int \<Rightarrow> py_error + ustr" where
  "subtract_steps last_id steps =
     (case split_id last_id of
        Inl e \<Rightarrow> Inl e
      | Inr (year, num, width) \<Rightarrow> Inr (format_id year (max 0 (num - max 0 steps)) width))"

definition iter_ids :: "ustr \<Rightarrow> ustr \<Rightarrow> py_error + ustr list" where
  "iter_ids start_id end_id =
     (case split_id start_id of
        Inl e \<Rightarrow> Inl e
      | Inr (y1, n1, w1) \<Rightarrow>
          (case split_id end_id of
             Inl e \<Rightarrow> Inl e
           | Inr (y2, n2, w2) \<Rightarrow>
               if y1 \<noteq> y2 \<or> n2 < n1 then Inl ValueError
               else Inr (map (\<lambda>i. format_id y1 i (max w1 w2)) [n1..n2])))"

text \<open>
  The shape the specification gives for an accepted identifier, in its own words: one or
  more digits, then \<^verbatim>\<open>-\<close>, then one or more digits.
\<close>

definition claimed_id_shape :: "ustr \<Rightarrow> bool" where
  "claimed_id_shape s \<longleftrightarrow>
     takeWhile is_digit s \<noteq> [] \<and>
     (case dropWhile is_digit s of
        [] \<Rightarrow> False
      | c # ds \<Rightarrow> c = 0x2D \<and> ds \<noteq> [] \<and> list_all is_digit ds)"

text \<open>The number a string of decimal digits denotes.\<close>

definition dec_val :: "ustr \<Rightarrow> nat" where
  "dec_val ds = foldl (\<lambda>a c. 10 * a + digit_val c) 0 ds"

section \<open>Correlation (src/reporting.py)\<close>

text \<open>
  \<^verbatim>\<open>str.lower()\<close>, code point by code point. The case table is given for the blocks Basic
  Latin, Latin-1 Supplement and Cyrillic, which hold the letters the patterns of the
  repository name, and for the two code points outside them whose lower case holds an
  ASCII letter: the capital I with dot above, which becomes \<open>i\<close> and a combining dot, and
  the Kelvin sign, which becomes \<open>k\<close>. Any other code point is left as it is: neither it
  nor its lower case is an ASCII character, white space or a letter of the Cyrillic
  ranges the patterns name, so the patterns treat the two alike.
\<close>

definition lower_char :: "uchar \<Rightarrow> ustr" where
  "lower_char c =
     (if 0x41 \<le> c \<and> c \<le> 0x5A then [c + 32]
      else if 0xC0 \<le> c \<and> c \<le> 0xDE \<and> c \<noteq> 0xD7 then [c + 32]
      else if c = 0x130 then [0x69, 0x307]
      else if 0x400 \<le> c \<and> c \<le> 0x40F then [c + 80]
      else if 0x410 \<le> c \<and> c \<le> 0x42F then [c + 32]
      else if c = 0x212A then [0x6B]
      else [c])"

definition py_lower :: "ustr \<Rightarrow> ustr" where
  "py_lower s = concat (map lower_char s)"

record VersionConstraint =
  op :: ustr
  v1 :: "int list"
  v2 :: "int list option"

text \<open>The class \<^verbatim>\<open>[0-9A-Za-z\<close>\<open>A..ya\<close>\<^verbatim>\<open>]\<close> with the two Cyrillic ranges \<open>0x410..0x42F\<close>, \<open>0x430..0x44F\<close>.\<close>

definition token_char :: "uchar \<Rightarrow> bool" where
  "token_char c \<longleftrightarrow>
     (0x30 \<le> c \<and> c \<le> 0x39) \<or> (0x41 \<le> c \<and> c \<le> 0x5A) \<or> (0x61 \<le> c \<and> c \<le> 0x7A) \<or>
     (0x410 \<le> c \<and> c \<le> 0x42F) \<or> (0x430 \<le> c \<and> c \<le> 0x44F)"

definition normalize_text :: "ustr \<Rightarrow> ustr list" where
  "normalize_text s =
     (let tokens = re_split [Rep (\<lambda>c. \<not> token_char c) 1] (py_lower s)
      in filter (\<lambda>t. t \<noteq> []) tokens)"

text \<open>
  The quotient is a Python float, the correctly rounded value of the exact quotient that
  is modelled here. Rounding is monotone and \<open>0.5\<close> is a float, so for sets of at most
  \<open>2 ^ 54\<close> tokens the comparisons with \<open>0.5\<close> below agree with the exact ones.
\<close>

definition tokens_similarity :: "ustr list \<Rightarrow> ustr list \<Rightarrow> real" where
  "tokens_similarity a b =
     (let set_a = set a; set_b = set b
      in if set_a = {} \<or> set_b = {} then 0
         else let inter = card (set_a \<inter> set_b)
              in real inter / real (max (card set_a) (card set_b)))"

text \<open>
  \<^verbatim>\<open>re.findall(r'\d+', s)\<close> yields the maximal runs of digits, on which \<^verbatim>\<open>int\<close> cannot fail
  and returns the number \<open>dec_val\<close> gives.
\<close>

definition parse_version :: "ustr \<Rightarrow> int list option" where
  "parse_version s =
     (if s = [] then None
      else let parts = re_findall [Rep is_digit 1] s
           in if parts = [] then None else Some (map (\<lambda>p. int (dec_val p)) parts))"

text \<open>Comparison of tuples of integers: the first place where they differ decides.\<close>

fun tuple_less :: "int list \<Rightarrow> int list \<Rightarrow> bool" where
  "tuple_less [] [] = False"
| "tuple_less [] (y # ys) = True"
| "tuple_less (x # xs) [] = False"
| "tuple_less (x # xs) (y # ys) = (if x = y then tuple_less xs ys else x < y)"

definition compare_versions :: "int list \<Rightarrow> int list \<Rightarrow> int" where
  "compare_versions a b =
     (let max_len = max (length a) (length b);
          aa = a @ replicate (max_len - length a) 0;
          bb = b @ replicate (max_len - length b) 0
      in if tuple_less aa bb then - 1 else if tuple_less bb aa then 1 else 0)"

text \<open>The text of group \<open>k\<close> of a match; every group of the patterns below takes part.\<close>

definition group :: "ustr \<times> ustr list \<Rightarrow> nat \<Rightarrow> ustr" where
  "group m k =
     (if k = 0 then fst m else if k \<le> length (snd m) then snd m ! (k - 1) else [])"

text \<open>The version token \<^verbatim>\<open>([0-9][0-9A-Za-z\.\-\_]*)\<close>.\<close>

definition ver_char :: "uchar \<Rightarrow> bool" where
  "ver_char c \<longleftrightarrow>
     (0x30 \<le> c \<and> c \<le> 0x39) \<or> (0x41 \<le> c \<and> c \<le> 0x5A) \<or> (0x61 \<le> c \<and> c \<le> 0x7A) \<or>
     c = 0x2E \<or> c = 0x2D \<or> c = 0x5F"

definition ver_token :: "atom list" where
  "ver_token = [GOpen, Cls ascii_digit, Rep ver_char 0, GClose]"

text \<open>
  One \<^verbatim>\<open>for m in re.finditer(...)\<close> loop: each match whose group \<open>g\<close> parses to a
  non-empty version appends a constraint, whose operator the match decides.
\<close>

definition add_constraints ::
  "(ustr \<times> ustr list \<Rightarrow> ustr) \<Rightarrow> nat \<Rightarrow> (ustr \<times> ustr list) list \<Rightarrow>
   VersionConstraint list \<Rightarrow> VersionConstraint list" where
  "add_constraints op_of g ms constraints =
     foldl (\<lambda>cs m. case parse_version (group m g) of
                     None \<Rightarrow> cs
                   | Some ver \<Rightarrow>
                       if ver \<noteq> [] then cs @ [\<lparr>op = op_of m, v1 = ver, v2 = None\<rparr>] else cs)
       constraints ms"

definition extract_version_constraints :: "ustr \<Rightarrow> VersionConstraint list" where
  "extract_version_constraints product =
     (if product = [] then []
      else
        let text = py_lower product;
            constraints = [];
            constraints = add_constraints (\<lambda>m. u ''<'') 2
              (re_finditer ([GOpen, Alts [u ''before'', u ''prior to''], GClose,
                             Rep py_isspace 1] @ ver_token) text) constraints;
            constraints = add_constraints (\<lambda>m. u ''<='') 2
              (re_finditer ([GOpen, Lit (u ''through''), GClose, Rep py_isspace 1] @ ver_token)
                 text) constraints;
            constraints = add_constraints (\<lambda>m. group m 1) 2
              (re_finditer ([GOpen, Alts [u ''<='', u ''>='', u ''<'', u ''>''], GClose,
                             Rep py_isspace 0] @ ver_token) text) constraints;
            constraints = add_constraints (\<lambda>m. u ''<='') 1
              (re_finditer (ver_token @ [Rep py_isspace 1, Lit (u ''and''), Rep py_isspace 1,
                                         Lit (u ''earlier'')]) text) constraints
        in if constraints = [] then
             (case re_search ([Lit (u ''version''), Opt 0x73, Rep py_isspace 1] @ ver_token) text of
                None \<Rightarrow> constraints
              | Some m \<Rightarrow>
                  (case parse_version (group m 1) of
                     None \<Rightarrow> constraints
                   | Some ver \<Rightarrow>
                       if ver \<noteq> [] then constraints @ [\<lparr>op = u ''=='', v1 = ver, v2 = None\<rparr>]
                       else constraints))
           else constraints)"

definition version_satisfies :: "int list \<Rightarrow> VersionConstraint \<Rightarrow> bool" where
  "version_satisfies installed cons =
     (let cmp_res = compare_versions installed (v1 cons)
      in if op cons = u ''<'' then cmp_res = - 1
         else if op cons = u ''<='' then cmp_res = - 1 \<or> cmp_res = 0
         else if op cons = u ''=='' then cmp_res = 0
         else if op cons = u ''>'' then cmp_res = 1
         else if op cons = u ''>='' then cmp_res = 0 \<or> cmp_res = 1
         else case v2 cons of
                Some w \<Rightarrow>
                  if op cons = u ''range''
                  then compare_versions installed (v1 cons) \<ge> 0 \<and> compare_versions installed w \<le> 0
                  else False
              | None \<Rightarrow> False)"

definition version_is_vulnerable :: "ustr option \<Rightarrow> ustr \<Rightarrow> ustr" where
  "version_is_vulnerable installed_version product_text =
     (case installed_version of
        None \<Rightarrow> u ''unknown''
      | Some iv_text \<Rightarrow>
          if iv_text = [] then u ''unknown''
          else case parse_version iv_text of
                 None \<Rightarrow> u ''unknown''
               | Some iv \<Rightarrow>
                   if iv = [] then u ''unknown''
                   else
                     let constraints = extract_version_constraints product_text
                     in if constraints = [] then u ''unknown''
                        else
                          let any_match = list_ex (\<lambda>c. version_satisfies iv c) constraints;
                              any_contradiction =
                                list_ex (\<lambda>c. \<not> version_satisfies iv c) constraints
                          in if any_match then u ''match''
                             else if any_contradiction then u ''mismatch''
                             else u ''unknown'')"

text \<open>
  Rows as \<^verbatim>\<open>_load_data\<close> reads them. A column that may hold NULL is an option;
  \<^verbatim>\<open>x or ''\<close> is \<open>or_empty\<close>.
\<close>

type_synonym timestamp = nat

text \<open>A value as \<^verbatim>\<open>sqlite3\<close> binds it and as a column holds it.\<close>

datatype py_float = Finite int int | PosInf | NegInf | NaN

datatype sql_value = SqlNull | SqlInt int | SqlReal py_float | SqlText ustr

record agent_row =
  agent_id :: ustr
  hostname :: sql_value
  os_type :: sql_value
  os_release :: sql_value
  os_version :: sql_value
  architecture :: sql_value
  ip_address :: sql_value
  first_seen :: timestamp
  last_seen :: timestamp

record software_row =
  soft_id :: nat
  soft_agent_id :: ustr
  soft_name :: ustr
  soft_version :: "ustr option"
  soft_publisher :: "ustr option"
  soft_first_seen :: timestamp
  soft_last_seen :: timestamp

record vuln_row =
  vuln_id :: int
  vuln_cve :: "ustr option"
  vuln_vendor :: "ustr option"
  vuln_product :: "ustr option"
  vuln_title :: "ustr option"
  vuln_cvss :: "ustr option"
  vuln_severity :: "ustr option"
  vuln_url :: "ustr option"

definition or_empty :: "ustr option \<Rightarrow> ustr" where
  "or_empty x = (case x of None \<Rightarrow> [] | Some s \<Rightarrow> s)"

definition SIM_THRESHOLD_NAME :: real where
  "SIM_THRESHOLD_NAME = 0.5"

definition SIM_THRESHOLD_VENDOR :: real where
  "SIM_THRESHOLD_VENDOR = 0.5"

text \<open>
  The result dictionary keeps the order of insertion: an association list from the
  disclosure id to the disclosure and the software entries found for it, each with its
  verdict.
\<close>

type_synonym match_entry = "vuln_row \<times> (software_row \<times> ustr) list"
type_synonym matches = "(int \<times> match_entry) list"

text \<open>
  \<^verbatim>\<open>entry = matches.get(vid)\<close>, a new entry when there is none, then
  \<^verbatim>\<open>entry['software'].append(...)\<close>.
\<close>

fun add_match :: "matches \<Rightarrow> int \<Rightarrow> vuln_row \<Rightarrow> software_row \<times> ustr \<Rightarrow> matches" where
  "add_match [] vid v item = [(vid, (v, [item]))]"
| "add_match ((k, (v', items)) # rest) vid v item =
     (if k = vid then (k, (v', items @ [item])) # rest
      else (k, (v', items)) # add_match rest vid v item)"

text \<open>The body of the inner loop \<^verbatim>\<open>for v in vulns\<close>; \<^verbatim>\<open>continue\<close> leaves the result as it is.\<close>

definition match_pair ::
  "software_row \<Rightarrow> ustr \<Rightarrow> ustr list \<Rightarrow> ustr list \<Rightarrow> matches \<Rightarrow> vuln_row \<Rightarrow> matches" where
  "match_pair sw sw_publisher sw_name_tokens sw_pub_tokens matches v =
     (let vid = vuln_id v;
          v_product = py_strip (or_empty (vuln_product v));
          v_vendor = py_strip (or_empty (vuln_vendor v));
          prod_tokens = (let t = normalize_text v_product
                         in if t \<noteq> [] then t else normalize_text (or_empty (vuln_title v)))
      in if prod_tokens = [] then matches
         else
           let sim_name = tokens_similarity sw_name_tokens prod_tokens
           in if sim_name < SIM_THRESHOLD_NAME then matches
              else if v_vendor \<noteq> [] \<and> sw_publisher \<noteq> [] \<and>
                      tokens_similarity sw_pub_tokens (normalize_text v_vendor)
                        < SIM_THRESHOLD_VENDOR
              then matches
              else
                let vcheck = version_is_vulnerable (soft_version sw) v_product
                in if vcheck = u ''mismatch'' then matches
                   else add_match matches vid v (sw, vcheck))"

text \<open>The body of the outer loop \<^verbatim>\<open>for sw in agent_soft\<close>.\<close>

definition match_software :: "vuln_row list \<Rightarrow> matches \<Rightarrow> software_row \<Rightarrow> matches" where
  "match_software vulns matches sw =
     (let sw_name = py_strip (soft_name sw)
      in if sw_name = [] then matches
         else
           let sw_publisher = py_strip (or_empty (soft_publisher sw));
               sw_name_tokens = normalize_text sw_name;
               sw_pub_tokens = normalize_text sw_publisher
           in foldl (match_pair sw sw_publisher sw_name_tokens sw_pub_tokens) matches vulns)"

definition match_vulns_for_agent ::
  "agent_row \<Rightarrow> (ustr \<rightharpoonup> software_row list) \<Rightarrow> vuln_row list \<Rightarrow> matches" where
  "match_vulns_for_agent agent soft_by_agent vulns =
     (let agent_soft = (case soft_by_agent (agent_id agent) of None \<Rightarrow> [] | Some rows \<Rightarrow> rows)
      in foldl (match_software vulns) [] agent_soft)"

subsection \<open>What a result holds, for the claims about the correlation\<close>

text \<open>
  The pairs of a result: the id of a disclosure, a software row kept for it, and the
  verdict the row was kept with.
\<close>

definition pairs_of :: "matches \<Rightarrow> (int \<times> software_row \<times> ustr) list" where
  "pairs_of ms =
     concat (map (\<lambda>(vid, (v, items)). map (\<lambda>(sw, verdict). (vid, sw, verdict)) items) ms)"

text \<open>
  The tests of the two loops that come before the version check: the name of the software
  is not blank, the disclosure has product tokens (those of the title when the product
  has none), the name similarity is not below its threshold, and neither is the vendor
  similarity when both the vendor and the publisher are given.
\<close>

definition passes_tests :: "software_row \<Rightarrow> vuln_row \<Rightarrow> bool" where
  "passes_tests sw v \<longleftrightarrow>
     (let sw_name = py_strip (soft_name sw);
          sw_publisher = py_strip (or_empty (soft_publisher sw));
          v_product = py_strip (or_empty (vuln_product v));
          v_vendor = py_strip (or_empty (vuln_vendor v));
          t = normalize_text v_product;
          prod_tokens = (if t \<noteq> [] then t else normalize_text (or_empty (vuln_title v)))
      in sw_name \<noteq> [] \<and> prod_tokens \<noteq> [] \<and>
         SIM_THRESHOLD_NAME \<le> tokens_similarity (normalize_text sw_name) prod_tokens \<and>
         (v_vendor = [] \<or> sw_publisher = [] \<or>
          SIM_THRESHOLD_VENDOR \<le>
            tokens_similarity (normalize_text sw_publisher) (normalize_text v_vendor)))"

text \<open>The verdict of the version check for a pair.\<close>

definition verdict_of :: "software_row \<Rightarrow> vuln_row \<Rightarrow> ustr" where
  "verdict_of sw v =
     version_is_vulnerable (soft_version sw) (py_strip (or_empty (vuln_product v)))"

text \<open>The constraint the text \<^verbatim>\<open>before 7.3.1\<close> stands for.\<close>

definition before_731 :: VersionConstraint where
  "before_731 = \<lparr>op = u ''<'', v1 = [7, 3, 1], v2 = None\<rparr>"

section \<open>Store (src/db.py): agents and their software\<close>

text \<open>
  A value of \<^verbatim>\<open>json.loads\<close>. A float is \<open>m * 2 ^ e\<close>, an infinity or NaN (which
  \<^verbatim>\<open>json.loads\<close> accepts). An object is the dictionary it was parsed to, as an association
  list; a key is looked up at its first entry.
\<close>

datatype json =
    JNull
  | JBool bool
  | JInt int
  | JFloat py_float
  | JStr ustr
  | JArr "json list"
  | JObj "(ustr \<times> json) list"

text \<open>Truth value testing, as \<^verbatim>\<open>not x\<close> and \<^verbatim>\<open>x or y\<close> do it.\<close>

fun truthy :: "json \<Rightarrow> bool" where
  "truthy JNull = False"
| "truthy (JBool b) = b"
| "truthy (JInt i) = (i \<noteq> 0)"
| "truthy (JFloat f) = (case f of Finite m e \<Rightarrow> m \<noteq> 0 | _ \<Rightarrow> True)"
| "truthy (JStr s) = (s \<noteq> [])"
| "truthy (JArr xs) = (xs \<noteq> [])"
| "truthy (JObj kvs) = (kvs \<noteq> [])"

definition py_or :: "json \<Rightarrow> json \<Rightarrow> json" where
  "py_or x y = (if truthy x then x else y)"

text \<open>\<^verbatim>\<open>x.get(key)\<close>: only a dictionary has the method; a missing key gives \<^verbatim>\<open>None\<close>.\<close>

definition obj_get :: "(ustr \<times> json) list \<Rightarrow> ustr \<Rightarrow> json" where
  "obj_get kvs key = (case map_of kvs key of None \<Rightarrow> JNull | Some v \<Rightarrow> v)"

definition dict_get :: "json \<Rightarrow> ustr \<Rightarrow> py_error + json" where
  "dict_get x key = (case x of JObj kvs \<Rightarrow> Inr (obj_get kvs key) | _ \<Rightarrow> Inl AttributeError)"

text \<open>
  \<^verbatim>\<open>sqlite3\<close> binds \<^verbatim>\<open>None\<close>, integers of 64 bits (a \<^verbatim>\<open>bool\<close> is an integer), floats (a NaN
  as NULL) and strings, which it encodes as UTF-8: a string that holds a surrogate code
  point, as \<^verbatim>\<open>json.loads\<close> can return, is refused. A list or a dictionary is refused.
\<close>

definition encodable :: "ustr \<Rightarrow> bool" where
  "encodable s \<longleftrightarrow> list_all (\<lambda>c. \<not> (0xD800 \<le> c \<and> c \<le> 0xDFFF)) s"

definition bind :: "json \<Rightarrow> py_error + sql_value" where
  "bind x =
     (case x of
        JNull \<Rightarrow> Inr SqlNull
      | JBool b \<Rightarrow> Inr (SqlInt (if b then 1 else 0))
      | JInt i \<Rightarrow> if - (2 ^ 63) \<le> i \<and> i < 2 ^ 63 then Inr (SqlInt i) else Inl OverflowError
      | JFloat f \<Rightarrow> Inr (case f of NaN \<Rightarrow> SqlNull | _ \<Rightarrow> SqlReal f)
      | JStr s \<Rightarrow> if encodable s then Inr (SqlText s) else Inl UnicodeEncodeError
      | JArr xs \<Rightarrow> Inl SqliteError
      | JObj kvs \<Rightarrow> Inl SqliteError)"

text \<open>
  The columns of \<^verbatim>\<open>agents\<close> are declared \<^verbatim>\<open>TEXT\<close>: a number stored in one becomes its text.
  \<open>text_of_real\<close> is the text the store gives a real number.
\<close>

definition text_affinity :: "(py_float \<Rightarrow> ustr) \<Rightarrow> sql_value \<Rightarrow> sql_value" where
  "text_affinity text_of_real x =
     (case x of
        SqlInt i \<Rightarrow> SqlText (str_int i)
      | SqlReal f \<Rightarrow> SqlText (text_of_real f)
      | _ \<Rightarrow> x)"

fun bind_all :: "json list \<Rightarrow> py_error + sql_value list" where
  "bind_all [] = Inr []"
| "bind_all (x # xs) =
     (case bind x of
        Inl e \<Rightarrow> Inl e
      | Inr v \<Rightarrow> (case bind_all xs of Inl e \<Rightarrow> Inl e | Inr vs \<Rightarrow> Inr (v # vs)))"

text \<open>
  The tables \<^verbatim>\<open>agents\<close> and \<^verbatim>\<open>agent_software\<close>, rows in the order of insertion, and the
  last row id \<^verbatim>\<open>AUTOINCREMENT\<close> gave out. The store is taken to be reachable and its schema
  in place (\<^verbatim>\<open>init_db\<close>).
\<close>

record db =
  agents :: "agent_row list"
  agent_software :: "software_row list"
  sw_seq :: nat

text \<open>
  \<^verbatim>\<open>INSERT INTO agents ... ON CONFLICT(agent_id) DO UPDATE SET ...\<close>: a new row takes
  \<^verbatim>\<open>CURRENT_TIMESTAMP\<close> for both times; an existing row keeps \<^verbatim>\<open>first_seen\<close>.
\<close>

fun upsert_row :: "timestamp \<Rightarrow> agent_row \<Rightarrow> agent_row list \<Rightarrow> agent_row list" where
  "upsert_row now new [] = [new\<lparr>first_seen := now, last_seen := now\<rparr>]"
| "upsert_row now new (r # rs) =
     (if agent_id r = agent_id new
      then new\<lparr>first_seen := first_seen r, last_seen := now\<rparr> # rs
      else r # upsert_row now new rs)"

text \<open>\<^verbatim>\<open>(item.get(key) or '').strip()\<close>: a truthy value that is no string has no \<^verbatim>\<open>strip\<close>.\<close>

definition field_text :: "json \<Rightarrow> ustr \<Rightarrow> py_error + ustr" where
  "field_text item key =
     (case dict_get item key of
        Inl e \<Rightarrow> Inl e
      | Inr v \<Rightarrow>
          if truthy v then (case v of JStr s \<Rightarrow> Inr (py_strip s) | _ \<Rightarrow> Inl AttributeError)
          else Inr [])"

definition or_none :: "ustr \<Rightarrow> ustr option" where
  "or_none s = (if s = [] then None else Some s)"

text \<open>
  The loop \<^verbatim>\<open>for item in software_list\<close>, collecting the tuples
  \<^verbatim>\<open>(agent_id, name, version, publisher, now, now)\<close>.
\<close>

type_synonym software_tuple = "ustr \<times> ustr \<times> ustr option \<times> ustr option \<times> timestamp \<times> timestamp"

fun software_rows :: "ustr \<Rightarrow> timestamp \<Rightarrow> json list \<Rightarrow> py_error + software_tuple list" where
  "software_rows aid now [] = Inr []"
| "software_rows aid now (item # items) =
     (case field_text item (u ''name'') of
        Inl e \<Rightarrow> Inl e
      | Inr name \<Rightarrow>
          if name = [] then software_rows aid now items
          else
            (case field_text item (u ''version'') of
               Inl e \<Rightarrow> Inl e
             | Inr version \<Rightarrow>
                 (case field_text item (u ''publisher'') of
                    Inl e \<Rightarrow> Inl e
                  | Inr publisher \<Rightarrow>
                      (case software_rows aid now items of
                         Inl e \<Rightarrow> Inl e
                       | Inr rows \<Rightarrow>
                           Inr ((aid, name, or_none version, or_none publisher, now, now)
                                # rows)))))"

text \<open>
  What \<^verbatim>\<open>for item in x\<close> runs over: the elements of a list, the characters of a string,
  the keys of a dictionary; anything else is not iterable.
\<close>

definition iterate :: "json \<Rightarrow> py_error + json list" where
  "iterate x =
     (case x of
        JArr xs \<Rightarrow> Inr xs
      | JStr s \<Rightarrow> Inr (map (\<lambda>c. JStr [c]) s)
      | JObj kvs \<Rightarrow> Inr (map (\<lambda>kv. JStr (fst kv)) kvs)
      | _ \<Rightarrow> Inl TypeError)"

text \<open>
  \<^verbatim>\<open>executemany('INSERT INTO agent_software ...', rows)\<close>: the texts of each row are bound,
  and each row takes the next id.
\<close>

definition bindable_row :: "software_tuple \<Rightarrow> bool" where
  "bindable_row row =
     (case row of
        (aid, name, version, publisher, fs, ls) \<Rightarrow>
          encodable name \<and>
          (case version of None \<Rightarrow> True | Some s \<Rightarrow> encodable s) \<and>
          (case publisher of None \<Rightarrow> True | Some s \<Rightarrow> encodable s))"

fun insert_software :: "nat \<Rightarrow> software_tuple list \<Rightarrow> software_row list" where
  "insert_software seq [] = []"
| "insert_software seq ((aid, name, version, publisher, fs, ls) # rows) =
     \<lparr>soft_id = seq + 1, soft_agent_id = aid, soft_name = name, soft_version = version,
      soft_publisher = publisher, soft_first_seen = fs, soft_last_seen = ls\<rparr>
     # insert_software (seq + 1) rows"

text \<open>
  \<^verbatim>\<open>upsert_agent_inventory\<close>. The statements run in one transaction that \<^verbatim>\<open>commit\<close> ends; an
  exception before it leaves the connection to be closed without a commit, so nothing is
  written: the result is then the error alone. \<open>current_timestamp\<close> is the clock of the
  store, \<open>utcnow\<close> that of the interpreter, \<open>text_of_real\<close> the text the store gives a real
  number.
\<close>

definition upsert_agent_inventory ::
  "(py_float \<Rightarrow> ustr) \<Rightarrow> timestamp \<Rightarrow> timestamp \<Rightarrow> db \<Rightarrow> ustr \<Rightarrow> json \<Rightarrow> json \<Rightarrow> json \<Rightarrow> json
   \<Rightarrow> json \<Rightarrow> json \<Rightarrow> json \<Rightarrow> py_error + db" where
  "upsert_agent_inventory text_of_real current_timestamp utcnow d aid hostname' os_type'
     os_release' os_version' architecture' ip_address' software_list =
     (case bind_all [JStr aid, hostname', os_type', os_release', os_version', architecture',
                     ip_address'] of
        Inr [i, h, t, r, v, a, ip] \<Rightarrow>
          let new = \<lparr>agent_id = aid,
                     hostname = text_affinity text_of_real h,
                     os_type = text_affinity text_of_real t,
                     os_release = text_affinity text_of_real r,
                     os_version = text_affinity text_of_real v,
                     architecture = text_affinity text_of_real a,
                     ip_address = text_affinity text_of_real ip,
                     first_seen = current_timestamp, last_seen = current_timestamp\<rparr>;
              d1 = d\<lparr>agents := upsert_row current_timestamp new (agents d)\<rparr>;
              d2 = d1\<lparr>agent_software := filter (\<lambda>row. soft_agent_id row \<noteq> aid) (agent_software d1)\<rparr>
          in if truthy software_list then
               (case iterate software_list of
                  Inl e \<Rightarrow> Inl e
                | Inr items \<Rightarrow>
                    (case software_rows aid utcnow items of
                       Inl e \<Rightarrow> Inl e
                     | Inr rows \<Rightarrow>
                         if list_all bindable_row rows then
                           Inr (d2\<lparr>agent_software :=
                                     agent_software d2 @ insert_software (sw_seq d2) rows,
                                   sw_seq := sw_seq d2 + length rows\<rparr>)
                         else Inl UnicodeEncodeError))
             else Inr d2
      | Inr _ \<Rightarrow> Inl OtherError
      | Inl e \<Rightarrow> Inl e)"

section \<open>Ingestion (agent_api.py)\<close>

type_synonym bytes = "nat list"

text \<open>
  What the service calls outside the repository: reading the private key file, base64,
  RSA-OAEP and AES-GCM of the cryptography library, the JSON parser on the UTF-8 text of
  the plaintext, \<^verbatim>\<open>str\<close> of a float, a list or a dictionary, and the text the store gives
  a real number.
\<close>

record 'k services =
  load_private_key :: "py_error + 'k"
  b64decode :: "ustr \<Rightarrow> py_error + bytes"
  rsa_oaep_decrypt :: "'k \<Rightarrow> bytes \<Rightarrow> py_error + bytes"
  aes_gcm_decrypt :: "bytes \<Rightarrow> bytes \<Rightarrow> bytes \<Rightarrow> bytes \<Rightarrow> py_error + bytes"
  json_loads :: "bytes \<Rightarrow> py_error + json"
  repr_other :: "json \<Rightarrow> ustr"
  sqlite_text_of_real :: "py_float \<Rightarrow> ustr"

text \<open>\<^verbatim>\<open>base64.b64decode(x)\<close> of a value of the request: only text can be decoded.\<close>

definition b64decode_value :: "'k services \<Rightarrow> json \<Rightarrow> py_error + bytes" where
  "b64decode_value sv x = (case x of JStr s \<Rightarrow> b64decode sv s | _ \<Rightarrow> Inl TypeError)"

definition decrypt_payload :: "'k services \<Rightarrow> 'k \<Rightarrow> json \<Rightarrow> json \<Rightarrow> py_error + json" where
  "decrypt_payload sv priv_key enc_key_b64 enc_data_b64 =
     (case b64decode_value sv enc_key_b64 of
        Inl e \<Rightarrow> Inl e
      | Inr enc_key \<Rightarrow>
          (case b64decode_value sv enc_data_b64 of
             Inl e \<Rightarrow> Inl e
           | Inr enc_data \<Rightarrow>
               (case rsa_oaep_decrypt sv priv_key enc_key of
                  Inl e \<Rightarrow> Inl e
                | Inr aes_key \<Rightarrow>
                    if length enc_data < 12 + 16 then Inl ValueError
                    else
                      let nonce = take 12 enc_data;
                          tag = take 16 (drop 12 enc_data);
                          ciphertext = drop 28 enc_data
                      in (case aes_gcm_decrypt sv aes_key nonce tag ciphertext of
                            Inl e \<Rightarrow> Inl e
                          | Inr plaintext \<Rightarrow> json_loads sv plaintext))))"

definition py_str :: "'k services \<Rightarrow> json \<Rightarrow> ustr" where
  "py_str sv x =
     (case x of
        JStr s \<Rightarrow> s
      | JInt i \<Rightarrow> str_int i
      | JBool b \<Rightarrow> if b then u ''True'' else u ''False''
      | JNull \<Rightarrow> u ''None''
      | _ \<Rightarrow> repr_other sv x)"

text \<open>
  A response is an error kind with its status, the success body, or the answer of the
  framework to an exception no handler of the service catches.
\<close>

datatype response = JsonError ustr nat | JsonOk | InternalServerError

text \<open>
  The body of the \<^verbatim>\<open>try\<close> around the call of \<^verbatim>\<open>upsert_agent_inventory\<close>: its arguments are
  evaluated in order, then the call is made.
\<close>

definition call_upsert ::
  "'k services \<Rightarrow> timestamp \<Rightarrow> timestamp \<Rightarrow> db \<Rightarrow> json \<Rightarrow> json \<Rightarrow> json \<Rightarrow> json \<Rightarrow> py_error + db" where
  "call_upsert sv current_timestamp utcnow d agent_id' os_info ip_address' software =
     (case dict_get os_info (u ''hostname'') of
        Inl e \<Rightarrow> Inl e
      | Inr hn \<Rightarrow>
     (case dict_get os_info (u ''os_type'') of
        Inl e \<Rightarrow> Inl e
      | Inr ot \<Rightarrow>
     (case dict_get os_info (u ''os_release'') of
        Inl e \<Rightarrow> Inl e
      | Inr orl \<Rightarrow>
     (case dict_get os_info (u ''os_version'') of
        Inl e \<Rightarrow> Inl e
      | Inr ovn \<Rightarrow>
     (case dict_get os_info (u ''architecture'') of
        Inl e \<Rightarrow> Inl e
      | Inr arc \<Rightarrow>
          upsert_agent_inventory (sqlite_text_of_real sv) current_timestamp utcnow d
            (py_str sv agent_id') hn ot orl ovn arc ip_address' software)))))"

text \<open>Lines 116 to 145 of \<^verbatim>\<open>agent_report\<close>: from the decrypted payload to the store.\<close>

definition store_payload ::
  "'k services \<Rightarrow> timestamp \<Rightarrow> timestamp \<Rightarrow> db \<Rightarrow> json \<Rightarrow> response \<times> db" where
  "store_payload sv current_timestamp utcnow d payload =
     (case dict_get payload (u ''agent_id'') of
        Inl e \<Rightarrow> (InternalServerError, d)
      | Inr agent_id' \<Rightarrow>
     (case dict_get payload (u ''os_info'') of
        Inl e \<Rightarrow> (InternalServerError, d)
      | Inr oi \<Rightarrow>
     (case dict_get payload (u ''software'') of
        Inl e \<Rightarrow> (InternalServerError, d)
      | Inr sw \<Rightarrow>
     (case dict_get payload (u ''ip_address'') of
        Inl e \<Rightarrow> (InternalServerError, d)
      | Inr ip \<Rightarrow>
          let os_info = py_or oi (JObj []);
              software = py_or sw (JArr []);
              ip_address' = py_or ip JNull
          in if \<not> truthy agent_id' then (JsonError (u ''agent_id_missing'') 400, d)
             else
               (case call_upsert sv current_timestamp utcnow d agent_id' os_info ip_address'
                       software of
                  Inl e \<Rightarrow> (JsonError (u ''db_error'') 500, d)
                | Inr d' \<Rightarrow> (JsonOk, d'))))))"

text \<open>
  \<^verbatim>\<open>agent_report\<close>. The body of the request is \<open>None\<close> when it is not JSON, else the value
  it parses to.
\<close>

definition agent_report ::
  "'k services \<Rightarrow> timestamp \<Rightarrow> timestamp \<Rightarrow> db \<Rightarrow> json option \<Rightarrow> response \<times> db" where
  "agent_report sv current_timestamp utcnow d request =
     (case request of
        None \<Rightarrow> (JsonError (u ''bad_json'') 400, d)
      | Some raw \<Rightarrow>
          (case dict_get (py_or raw (JObj [])) (u ''enc_key'') of
             Inl e \<Rightarrow> (InternalServerError, d)
           | Inr enc_key \<Rightarrow>
               (case dict_get (py_or raw (JObj [])) (u ''enc_data'') of
                  Inl e \<Rightarrow> (InternalServerError, d)
                | Inr enc_data \<Rightarrow>
                    if \<not> truthy enc_key \<or> \<not> truthy enc_data
                    then (JsonError (u ''enc_key_or_enc_data_missing'') 400, d)
                    else
                      (case load_private_key sv of
                         Inl e \<Rightarrow> (JsonError (u ''private_key_error'') 500, d)
                       | Inr priv_key \<Rightarrow>
                           (case decrypt_payload sv priv_key enc_key enc_data of
                              Inl e \<Rightarrow> (JsonError (u ''decrypt_failed'') 400, d)
                            | Inr payload \<Rightarrow>
                                store_payload sv current_timestamp utcnow d payload)))))"

subsection \<open>What a report says, for the claims about the store\<close>

text \<open>
  The payload \<^verbatim>\<open>agent_report\<close> decrypts from a request, when the request gets that far; the
  agent id it then passes to the store; and the entries of the list \<^verbatim>\<open>software\<close> of the
  payload (none when the field is no list).
\<close>

definition decrypted :: "'k services \<Rightarrow> json option \<Rightarrow> json option" where
  "decrypted sv request =
     (case request of
        None \<Rightarrow> None
      | Some raw \<Rightarrow>
          (case dict_get (py_or raw (JObj [])) (u ''enc_key'') of
             Inl e \<Rightarrow> None
           | Inr enc_key \<Rightarrow>
               (case dict_get (py_or raw (JObj [])) (u ''enc_data'') of
                  Inl e \<Rightarrow> None
                | Inr enc_data \<Rightarrow>
                    if \<not> truthy enc_key \<or> \<not> truthy enc_data then None
                    else
                      (case load_private_key sv of
                         Inl e \<Rightarrow> None
                       | Inr priv_key \<Rightarrow>
                           (case decrypt_payload sv priv_key enc_key enc_data of
                              Inl e \<Rightarrow> None
                            | Inr payload \<Rightarrow> Some payload)))))"

definition reported_agent :: "'k services \<Rightarrow> json option \<Rightarrow> ustr" where
  "reported_agent sv request =
     (case decrypted sv request of
        Some (JObj kvs) \<Rightarrow> py_str sv (obj_get kvs (u ''agent_id''))
      | _ \<Rightarrow> [])"

definition reported_software :: "'k services \<Rightarrow> json option \<Rightarrow> json list" where
  "reported_software sv request =
     (case decrypted sv request of
        Some (JObj kvs) \<Rightarrow> (case obj_get kvs (u ''software'') of JArr entries \<Rightarrow> entries | _ \<Rightarrow> [])
      | _ \<Rightarrow> [])"

text \<open>
  The text of a field of a reported entry, with surrounding white space removed; empty
  when the entry has no text there. An entry has a non-blank name when that text of its
  field \<^verbatim>\<open>name\<close> is not empty.
\<close>

definition entry_text :: "json \<Rightarrow> ustr \<Rightarrow> ustr" where
  "entry_text entry key =
     (case entry of
        JObj kvs \<Rightarrow> (case map_of kvs key of Some (JStr s) \<Rightarrow> py_strip s | _ \<Rightarrow> [])
      | _ \<Rightarrow> [])"

text \<open>
  The columns a reported entry is expected to be stored with: the agent, the name, the
  version and the publisher (NULL when empty), and the time of the report twice.
\<close>

definition stored_entry :: "ustr \<Rightarrow> timestamp \<Rightarrow> json \<Rightarrow> software_tuple" where
  "stored_entry aid now entry =
     (aid, entry_text entry (u ''name''),
      (if entry_text entry (u ''version'') = [] then None
       else Some (entry_text entry (u ''version''))),
      (if entry_text entry (u ''publisher'') = [] then None
       else Some (entry_text entry (u ''publisher''))),
      now, now)"

text \<open>The columns of a stored row, its id apart.\<close>

definition software_tuple_of :: "software_row \<Rightarrow> software_tuple" where
  "software_tuple_of row =
     (soft_agent_id row, soft_name row, soft_version row, soft_publisher row,
      soft_first_seen row, soft_last_seen row)"

text \<open>
  A report the store takes: the agent id can be encoded, \<^verbatim>\<open>os_info\<close> is an object (or
  falsy) whose five fields can be bound, as can \<^verbatim>\<open>ip_address\<close>, and \<^verbatim>\<open>software\<close> is a list
  (or falsy) of objects whose fields \<^verbatim>\<open>name\<close>, \<^verbatim>\<open>version\<close> and \<^verbatim>\<open>publisher\<close> are each falsy or
  a text that can be encoded.
\<close>

definition bindable :: "json \<Rightarrow> bool" where
  "bindable x = (case bind x of Inr v \<Rightarrow> True | Inl e \<Rightarrow> False)"

definition well_formed_field :: "json \<Rightarrow> bool" where
  "well_formed_field x = (case x of JStr s \<Rightarrow> encodable (py_strip s) | _ \<Rightarrow> \<not> truthy x)"

definition well_formed_entry :: "json \<Rightarrow> bool" where
  "well_formed_entry entry =
     (case entry of
        JObj kvs \<Rightarrow>
          list_all (\<lambda>key. well_formed_field (obj_get kvs key))
            [u ''name'', u ''version'', u ''publisher'']
      | _ \<Rightarrow> False)"

definition well_formed_report :: "'k services \<Rightarrow> (ustr \<times> json) list \<Rightarrow> bool" where
  "well_formed_report sv kvs \<longleftrightarrow>
     encodable (py_str sv (obj_get kvs (u ''agent_id''))) \<and>
     (case py_or (obj_get kvs (u ''os_info'')) (JObj []) of
        JObj info \<Rightarrow>
          list_all (\<lambda>key. bindable (obj_get info key))
            [u ''hostname'', u ''os_type'', u ''os_release'', u ''os_version'', u ''architecture'']
      | _ \<Rightarrow> False) \<and>
     bindable (py_or (obj_get kvs (u ''ip_address'')) JNull) \<and>
     (case py_or (obj_get kvs (u ''software'')) (JArr []) of
        JArr entries \<Rightarrow> list_all well_formed_entry entries
      | _ \<Rightarrow> False)"

section \<open>Aggregation (src/processing.py)\<close>

text \<open>
  A part is read with \<^verbatim>\<open>dtype=str\<close>: a cell is text or missing (NaN). The numbering column
  and the technical date column hold numbers. A row maps the name of a column to its
  cell, and to NaN outside the columns of its frame; the names of the columns of a frame
  are distinct, as \<^verbatim>\<open>read_csv\<close> makes them.
\<close>

datatype cell = NaN | Text ustr | Num int

type_synonym row = "ustr \<Rightarrow> cell"













subsection \<open>Frames\<close>

text \<open>The elements of a list without repetitions, in the order of their first occurrence.\<close>

definition uniq :: "'a list \<Rightarrow> 'a list" where
  "uniq xs = rev (remdups (rev xs))"













subsection \<open>The steps of the aggregation\<close>












subsection \<open>Notions for the claims about the aggregation\<close>




section \<open>Incremental watcher (src/autonomous.py)\<close>


text \<open>The messages the loop puts on the status queue.\<close>

datatype status =
    WarnNotRecognised
  | NewUpdate ustr ustr ustr int
  | NoNews
  | WarnLoopError py_error


text \<open>
  The state an iteration changes: the text of the checkpoint file \<^verbatim>\<open>last_seen_news.txt\<close>
  (\<open>None\<close> while there is no file), the lists of identifiers handed to the harvest, and the
  messages emitted.
\<close>

record watcher =
  stamp :: "ustr option"
  harvests :: "ustr list list"
  emitted :: "status list"

definition emit :: "status \<Rightarrow> watcher \<Rightarrow> watcher" where
  "emit msg st = st\<lparr>emitted := emitted st @ [msg]\<rparr>"



section \<open>Example inputs\<close>

subsection \<open>Example services\<close>

text \<open>
  Stand-ins for the services, to run the examples: a decoder for canonical base64 text
  (the library is more lenient on other text), a key unwrapping that returns its input, an
  authenticated decryption that accepts the all-zero tag and returns the ciphertext, and
  a parser that knows the plaintexts of the examples.
\<close>

definition b64_value :: "uchar \<Rightarrow> nat option" where
  "b64_value c =
     (if 0x41 \<le> c \<and> c \<le> 0x5A then Some (c - 0x41)
      else if 0x61 \<le> c \<and> c \<le> 0x7A then Some (c - 0x61 + 26)
      else if 0x30 \<le> c \<and> c \<le> 0x39 then Some (c - 0x30 + 52)
      else if c = 0x2B then Some 62
      else if c = 0x2F then Some 63
      else None)"

fun b64_canonical :: "ustr \<Rightarrow> py_error + bytes" where
  "b64_canonical [] = Inr []"
| "b64_canonical (a # b # c # d # rest) =
     (case (b64_value a, b64_value b) of
        (Some x, Some y) \<Rightarrow>
          if c = 0x3D \<and> d = 0x3D \<and> rest = [] then Inr [(x * 64 + y) div 16]
          else
            (case b64_value c of
               None \<Rightarrow> Inl ValueError
             | Some z \<Rightarrow>
                 if d = 0x3D \<and> rest = []
                 then Inr [(x * 64 + y) div 16, ((y * 64 + z) div 4) mod 256]
                 else
                   (case b64_value d of
                      None \<Rightarrow> Inl ValueError
                    | Some w \<Rightarrow>
                        (case b64_canonical rest of
                           Inl e \<Rightarrow> Inl e
                         | Inr bs \<Rightarrow>
                             Inr ((x * 64 + y) div 16 # ((y * 64 + z) div 4) mod 256
                                  # (z * 64 + w) mod 256 # bs))))
      | _ \<Rightarrow> Inl ValueError)"
| "b64_canonical _ = Inl ValueError"

definition report_one :: json where
  "report_one = JArr [JObj [(u ''name'', JStr (u ''Alpha'')), (u ''version'', JStr (u ''1.0''))],
                      JObj [(u ''name'', JStr (u ''Beta'')), (u ''publisher'', JStr (u ''Acme''))]]"

definition report_two :: json where
  "report_two = JArr [JObj [(u ''name'', JStr (u '' Gamma '')), (u ''version'', JStr []),
                            (u ''publisher'', JStr (u ''Acme''))],
                      JObj [(u ''name'', JStr (u ''  ''))]]"

definition plain_number :: bytes where
  "plain_number = u ''{\"agent_id\": 5}''"

definition plain_zero :: bytes where
  "plain_zero = u ''{\"agent_id\": 0}''"

definition plain_bad_software :: bytes where
  "plain_bad_software = u ''{\"agent_id\": \"a1\", \"software\": 5}''"

definition plain_one :: bytes where
  "plain_one = u ''{\"agent_id\": \"a1\", \"software\": [{\"name\": \"Alpha\", \"version\": \"1.0\"}, {\"name\": \"Beta\", \"publisher\": \"Acme\"}]}''"

definition plain_two :: bytes where
  "plain_two = u ''{\"agent_id\": \"a1\", \"software\": [{\"name\": \" Gamma \", \"version\": \"\", \"publisher\": \"Acme\"}, {\"name\": \"  \"}]}''"

definition demo_json_loads :: "bytes \<Rightarrow> py_error + json" where
  "demo_json_loads bs =
     (if bs = plain_number then Inr (JObj [(u ''agent_id'', JInt 5)])
      else if bs = plain_zero then Inr (JObj [(u ''agent_id'', JInt 0)])
      else if bs = plain_bad_software
        then Inr (JObj [(u ''agent_id'', JStr (u ''a1'')), (u ''software'', JInt 5)])
      else if bs = plain_one
        then Inr (JObj [(u ''agent_id'', JStr (u ''a1'')), (u ''software'', report_one)])
      else if bs = plain_two
        then Inr (JObj [(u ''agent_id'', JStr (u ''a1'')), (u ''software'', report_two)])
      else Inl ValueError)"

definition demo_services :: "nat services" where
  "demo_services =
     \<lparr>load_private_key = Inr 0,
      b64decode = b64_canonical,
      rsa_oaep_decrypt = (\<lambda>k bs. Inr bs),
      aes_gcm_decrypt = (\<lambda>key nonce tag ct. if tag = replicate 16 0 then Inr ct else Inl CryptoError),
      json_loads = demo_json_loads,
      repr_other = (\<lambda>x. []),
      sqlite_text_of_real = (\<lambda>f. [])\<rparr>"

definition empty_db :: db where
  "empty_db = \<lparr>agents = [], agent_software = [], sw_seq = 0\<rparr>"

subsection \<open>Example rows\<close>



definition host1 :: agent_row where
  "host1 = \<lparr>agent_id = u ''host-1'', hostname = SqlNull, os_type = SqlNull,
     os_release = SqlNull, os_version = SqlNull, architecture = SqlNull, ip_address = SqlNull,
     first_seen = 0, last_seen = 0\<rparr>"

definition app_vuln :: vuln_row where
  "app_vuln = \<lparr>vuln_id = 3, vuln_cve = None, vuln_vendor = None,
     vuln_product = Some (u ''before 7.3.1''), vuln_title = None, vuln_cvss = None,
     vuln_severity = None, vuln_url = None\<rparr>"

definition app_old :: software_row where
  "app_old = \<lparr>soft_id = 1, soft_agent_id = u ''host-1'', soft_name = u ''App 7.3.1'',
     soft_version = Some (u ''7.2.0''), soft_publisher = None, soft_first_seen = 0,
     soft_last_seen = 0\<rparr>"

definition app_new :: software_row where
  "app_new = \<lparr>soft_id = 2, soft_agent_id = u ''host-1'', soft_name = u ''App 7.3.1'',
     soft_version = Some (u ''7.5.0''), soft_publisher = None, soft_first_seen = 0,
     soft_last_seen = 0\<rparr>"

subsection \<open>Example reports and requests\<close>

definition db_after_one :: db where
  "db_after_one =
     \<lparr>agents = [\<lparr>agent_id = u ''a1'', hostname = SqlNull, os_type = SqlNull, os_release = SqlNull,
       os_version = SqlNull, architecture = SqlNull, ip_address = SqlNull, first_seen = 10,
       last_seen = 10\<rparr>],
     agent_software =
       [\<lparr>soft_id = 1, soft_agent_id = u ''a1'', soft_name = u ''Alpha'', soft_version = Some (u ''1.0''),
         soft_publisher = None, soft_first_seen = 11, soft_last_seen = 11\<rparr>,
        \<lparr>soft_id = 2, soft_agent_id = u ''a1'', soft_name = u ''Beta'', soft_version = None,
         soft_publisher = Some (u ''Acme''), soft_first_seen = 11, soft_last_seen = 11\<rparr>],
     sw_seq = 2\<rparr>"

definition db_after_two :: db where
  "db_after_two =
     \<lparr>agents = [\<lparr>agent_id = u ''a1'', hostname = SqlNull, os_type = SqlNull, os_release = SqlNull,
       os_version = SqlNull, architecture = SqlNull, ip_address = SqlNull, first_seen = 10,
       last_seen = 20\<rparr>],
     agent_software =
       [\<lparr>soft_id = 3, soft_agent_id = u ''a1'', soft_name = u ''Gamma'', soft_version = None,
         soft_publisher = Some (u ''Acme''), soft_first_seen = 21, soft_last_seen = 21\<rparr>],
     sw_seq = 3\<rparr>"

definition request_one :: json where
  "request_one =
     JObj [(u ''enc_key'', JStr (u ''a2V5'')),
           (u ''enc_data'',
            JStr (u ''AAAAAAAAAAAAAAAAAAAAAAAAAAAAAAAAAAAAAHsiYWdlbnRfaWQiOiAiYTEiLCAic29mdHdhcmUiOiBbeyJuYW1lIjogIkFscGhhIiwgInZlcnNpb24iOiAiMS4wIn0sIHsibmFtZSI6ICJCZXRhIiwgInB1Ymxpc2hlciI6ICJBY21lIn1dfQ==''))]"

definition request_two :: json where
  "request_two =
     JObj [(u ''enc_key'', JStr (u ''a2V5'')),
           (u ''enc_data'',
            JStr (u ''AAAAAAAAAAAAAAAAAAAAAAAAAAAAAAAAAAAAAHsiYWdlbnRfaWQiOiAiYTEiLCAic29mdHdhcmUiOiBbeyJuYW1lIjogIiBHYW1tYSAiLCAidmVyc2lvbiI6ICIiLCAicHVibGlzaGVyIjogIkFjbWUifSwgeyJuYW1lIjogIiAgIn1dfQ==''))]"

definition bad_software_request :: json where
  "bad_software_request =
     JObj [(u ''enc_key'', JStr (u ''a2V5'')),
           (u ''enc_data'',
            JStr (u ''AAAAAAAAAAAAAAAAAAAAAAAAAAAAAAAAAAAAAHsiYWdlbnRfaWQiOiAiYTEiLCAic29mdHdhcmUiOiA1fQ==''))]"

definition short_request :: json where
  "short_request = JObj [(u ''enc_key'', JStr (u ''a2V5'')),
                         (u ''enc_data'', JStr (u ''AAAAAAAAAAAAAAAAAAAAAAAAAAA=''))]"

definition empty_data_request :: json where
  "empty_data_request = JObj [(u ''enc_key'', JStr (u ''a2V5'')), (u ''enc_data'', JStr [])]"

definition keyless_request :: json where
  "keyless_request = JObj [(u ''enc_data'', JStr (u ''AAAAAAAAAAAAAAAAAAAAAAAAAAA=''))]"

definition number_id_request :: json where
  "number_id_request =
     JObj [(u ''enc_key'', JStr (u ''a2V5'')),
           (u ''enc_data'',
            JStr (u ''AAAAAAAAAAAAAAAAAAAAAAAAAAAAAAAAAAAAAHsiYWdlbnRfaWQiOiA1fQ==''))]"

definition zero_id_request :: json where
  "zero_id_request =
     JObj [(u ''enc_key'', JStr (u ''a2V5'')),
           (u ''enc_data'',
            JStr (u ''AAAAAAAAAAAAAAAAAAAAAAAAAAAAAAAAAAAAAHsiYWdlbnRfaWQiOiAwfQ==''))]"

definition db_number_id :: db where
  "db_number_id =
     \<lparr>agents = [\<lparr>agent_id = u ''5'', hostname = SqlNull, os_type = SqlNull, os_release = SqlNull,
          os_version = SqlNull, architecture = SqlNull, ip_address = SqlNull, first_seen = 10,
          last_seen = 10\<rparr>],
      agent_software = [], sw_seq = 0\<rparr>"

subsection \<open>Example probes\<close>







subsection \<open>Example frames\<close>







section \<open>Verification: text and regular expressions\<close>

lemma u_Nil: "u [] = []"
  by (simp add: u_def)

lemma u_Cons: "u (c # cs) = of_char c # u cs"
  by (simp add: u_def)

lemmas u_simps = u_Nil u_Cons

lemma not_digit_10 [simp]: "\<not> is_digit 10"
  by (simp add: is_digit_def ascii_digit_def)

lemma rep_try_none:
  "(\<And>j. n \<le> j \<Longrightarrow> j \<le> k \<Longrightarrow> f j = None) \<Longrightarrow> rep_try f n k = None"
  by (induction k) auto

lemma rep_try_last:
  assumes "\<And>j. n \<le> j \<Longrightarrow> j < k \<Longrightarrow> f j = None"
  shows "rep_try f n k = (if n \<le> k then f k else None)"
proof (cases k)
  case 0
  then show ?thesis by simp
next
  case (Suc k')
  have "rep_try f n k' = None"
    by (rule rep_try_none) (use assms Suc in auto)
  then show ?thesis using Suc by (auto split: option.splits)
qed

lemma drop_takeWhile_lt:
  assumes "j < length (takeWhile p r)"
  shows "\<exists>x xs. drop j r = x # xs \<and> p x"
proof -
  have j: "j < length r" using assms length_takeWhile_le [of p r] by linarith
  have "p (r ! j)"
    using assms by (metis nth_mem set_takeWhileD takeWhile_nth)
  moreover have "drop j r = r ! j # drop (Suc j) r"
    using j by (simp add: Cons_nth_drop_Suc)
  ultimately show ?thesis by blast
qed

lemma match_cls_iff:
  "match_here (Cls p # as) s pos os cs \<noteq> None \<longleftrightarrow>
     (\<exists>c r. s = c # r \<and> p c \<and> match_here as r (pos + 1) os cs \<noteq> None)"
  by (cases s) auto

lemma match_lit1_iff:
  "match_here (Lit [x] # as) s pos os cs \<noteq> None \<longleftrightarrow>
     (\<exists>r. s = x # r \<and> match_here as r (pos + 1) os cs \<noteq> None)"
  by (cases s) (auto simp: starts_with_def)

section \<open>Verification: identifiers\<close>

lemma digits_then_dollar:
  assumes "\<not> p 10"
  shows "match_here [Rep p (Suc 0), Dollar] r pos os cs \<noteq> None \<longleftrightarrow>
         takeWhile p r \<noteq> [] \<and> (dropWhile p r = [] \<or> dropWhile p r = [10])"
proof -
  let ?f = "\<lambda>j. match_here [Dollar] (drop j r) (pos + j) os cs"
  let ?k = "length (takeWhile p r)"
  have none: "?f j = None" if "j < ?k" for j
    using drop_takeWhile_lt [OF that] assms by auto
  have "rep_try ?f (Suc 0) ?k = (if Suc 0 \<le> ?k then ?f ?k else None)"
    by (rule rep_try_last) (use none in auto)
  moreover have "drop ?k r = dropWhile p r"
    by (simp add: dropWhile_eq_drop)
  ultimately show ?thesis
    by (auto simp: Suc_le_eq)
qed

lemma takeWhile_digits_tail:
  "list_all is_digit ds \<Longrightarrow> t = [] \<or> t = [10] \<Longrightarrow>
   takeWhile is_digit (ds @ t) = ds \<and> dropWhile is_digit (ds @ t) = t"
  by (induction ds) auto

lemma validate_vuln_id_unfold:
  "validate_vuln_id s \<longleftrightarrow>
     (\<exists>a b c d r. s = a # b # c # d # 45 # r \<and> is_digit a \<and> is_digit b \<and> is_digit c \<and>
        is_digit d \<and> takeWhile is_digit r \<noteq> [] \<and>
        (dropWhile is_digit r = [] \<or> dropWhile is_digit r = [10]))"
  unfolding validate_vuln_id_def re_match_def ID_RE_def
  by (simp add: u_simps match_cls_iff match_lit1_iff digits_then_dollar
      del: match_here.simps not_None_eq) blast

lemma validate_vuln_id_shape:
  "validate_vuln_id s \<longleftrightarrow>
     (\<exists>ys ds t. s = ys @ u ''-'' @ ds @ t \<and> length ys = 4 \<and> list_all is_digit ys \<and>
                ds \<noteq> [] \<and> list_all is_digit ds \<and> (t = [] \<or> t = [10]))"
  (is "?L \<longleftrightarrow> ?R")
proof
  assume ?L
  then obtain a b c d r where s: "s = a # b # c # d # 45 # r"
    and dig: "is_digit a" "is_digit b" "is_digit c" "is_digit d"
    and t: "takeWhile is_digit r \<noteq> []"
    "dropWhile is_digit r = [] \<or> dropWhile is_digit r = [10]"
    unfolding validate_vuln_id_unfold by blast
  have "s = [a, b, c, d] @ u ''-'' @ takeWhile is_digit r @ dropWhile is_digit r"
    using s by (simp add: u_simps)
  moreover have "list_all is_digit (takeWhile is_digit r)"
    by (simp add: list_all_iff) (meson set_takeWhileD)
  ultimately show ?R
    using dig t by (intro exI [of _ "[a, b, c, d]"] exI [of _ "takeWhile is_digit r"]
        exI [of _ "dropWhile is_digit r"]) simp
next
  assume ?R
  then obtain ys ds t where s: "s = ys @ u ''-'' @ ds @ t" and l: "length ys = 4"
    and dy: "list_all is_digit ys" and ds: "ds \<noteq> []" "list_all is_digit ds"
    and t: "t = [] \<or> t = [10]"
    by blast
  from l obtain a b c d where ys: "ys = [a, b, c, d]"
    by (auto simp: length_Suc_conv numeral_eq_Suc)
  show ?L
    unfolding validate_vuln_id_unfold
    using s ys dy takeWhile_digits_tail [OF ds(2) t] ds(1) t by (auto simp: u_simps)
qed

text \<open>
  Claim C5, as the code has it by design. Among the strings that do not end in a line
  feed, \<^verbatim>\<open>validate_vuln_id\<close> accepts exactly those made of four decimal digits, then \<^verbatim>\<open>-\<close>,
  then one or more decimal digits. A digit is any character of the class \<^verbatim>\<open>\d\<close>. The year
  has exactly four digits, not one or more. Nothing is said here of a string that ends
  in a line feed.
\<close>

theorem validate_vuln_id_iff:
  assumes "s = [] \<or> last s \<noteq> 10"
  shows "validate_vuln_id s \<longleftrightarrow>
     (\<exists>ys ds. s = ys @ u ''-'' @ ds \<and> length ys = 4 \<and> list_all is_digit ys \<and>
             ds \<noteq> [] \<and> list_all is_digit ds)"
  (is "?L \<longleftrightarrow> ?R")
proof
  assume ?L
  then obtain ys ds t where s: "s = ys @ u ''-'' @ ds @ t" and l: "length ys = 4"
    and dy: "list_all is_digit ys" and ds: "ds \<noteq> []" "list_all is_digit ds"
    and t: "t = [] \<or> t = [10]"
    unfolding validate_vuln_id_shape by blast
  have "t \<noteq> [10]"
  proof
    assume "t = [10]"
    then have "s \<noteq> [] \<and> last s = 10" unfolding s by simp
    then show False using assms by simp
  qed
  then have "t = []" using t by simp
  then show ?R using s l dy ds by auto
next
  assume ?R
  then obtain ys ds where "s = ys @ u ''-'' @ ds @ []" "length ys = 4" "list_all is_digit ys"
    "ds \<noteq> []" "list_all is_digit ds"
    by auto
  then show ?L unfolding validate_vuln_id_shape by blast
qed

theorem validate_vuln_id_iff_witness:
  "(u ''2024-0100'' = [] \<or> last (u ''2024-0100'') \<noteq> 10) \<and> validate_vuln_id (u ''2024-0100'') \<and>
   (u ''24-0100'' = [] \<or> last (u ''24-0100'') \<noteq> 10) \<and> \<not> validate_vuln_id (u ''24-0100'')"
proof -
  have h: "u ''2024-0100'' = [] \<or> last (u ''2024-0100'') \<noteq> 10"
    "u ''24-0100'' = [] \<or> last (u ''24-0100'') \<noteq> 10"
    by (simp_all add: u_simps)
  have "u ''2024-0100'' = u ''2024'' @ u ''-'' @ u ''0100'' \<and> length (u ''2024'') = 4 \<and>
        list_all is_digit (u ''2024'') \<and> u ''0100'' \<noteq> [] \<and> list_all is_digit (u ''0100'')"
    by (simp add: u_simps is_digit_def ascii_digit_def)
  then have a: "validate_vuln_id (u ''2024-0100'')"
    using validate_vuln_id_iff [OF h(1)] by blast
  have "\<not> (\<exists>ys ds. u ''24-0100'' = ys @ u ''-'' @ ds \<and> length ys = 4 \<and> list_all is_digit ys \<and>
             ds \<noteq> [] \<and> list_all is_digit ds)"
    by (auto simp: u_simps length_Suc_conv numeral_eq_Suc is_digit_def ascii_digit_def)
  then have b: "\<not> validate_vuln_id (u ''24-0100'')"
    using validate_vuln_id_iff [OF h(2)] by blast
  show ?thesis using h a b by blast
qed

text \<open>
  Claim C5 as stated fails: \<^verbatim>\<open>1-2\<close> is one or more digits, \<^verbatim>\<open>-\<close>, one or more digits, and
  is rejected, because the year must have four digits.
\<close>

theorem validate_vuln_id_counterexample:
  "claimed_id_shape (u ''1-2'') \<and> \<not> validate_vuln_id (u ''1-2'')"
  by (simp add: u_simps claimed_id_shape_def validate_vuln_id_unfold is_digit_def ascii_digit_def)

lemma dec_val_simps [simp]:
  "dec_val [] = 0" "dec_val (xs @ [x]) = 10 * dec_val xs + digit_val x"
  by (simp_all add: dec_val_def)

lemma ascii_digit_is_digit: "ascii_digit c \<Longrightarrow> is_digit c"
  by (simp add: is_digit_def ascii_digit_def)

lemma is_digit_cases:
  "is_digit c \<Longrightarrow> ascii_digit c \<or> (0x660 \<le> c \<and> c \<le> 0x1099) \<or> (0x17E0 \<le> c \<and> c \<le> 0x1C59) \<or> 0xA620 \<le> c"
  by (simp add: is_digit_def nd_zeros_def split: if_splits) linarith

lemma digit_not_space: "is_digit c \<Longrightarrow> \<not> int_space c"
  by (drule is_digit_cases) (auto simp: int_space_def py_isspace_def ascii_digit_def)

lemma digit_not_sign: "is_digit c \<Longrightarrow> c \<noteq> 45 \<and> c \<noteq> 43"
  by (drule is_digit_cases) (auto simp: ascii_digit_def)

lemma digit_val_lt: "is_digit c \<Longrightarrow> digit_val c < 10"
  by (auto simp: is_digit_def digit_val_def ascii_digit_def list_ex_iff
      split: if_splits option.splits dest!: find_Some_iff [THEN iffD1] simp: find_None_iff)

lemma digits_us_digits:
  "list_all is_digit ds \<Longrightarrow> digits_us acc ds = Some (foldl (\<lambda>a c. 10 * a + digit_val c) acc ds)"
  by (induction ds arbitrary: acc) auto

lemma int_unsigned_digits:
  "list_all is_digit ds \<Longrightarrow> ds \<noteq> [] \<Longrightarrow> int_unsigned ds = Some (dec_val ds)"
  by (cases ds) (simp_all add: int_unsigned_def digits_us_digits dec_val_def)

lemma dropWhile_hd: "xs \<noteq> [] \<Longrightarrow> \<not> p (hd xs) \<Longrightarrow> dropWhile p xs = xs"
  by (cases xs) auto

lemma strip_digits:
  assumes "list_all is_digit ds"
  shows "rev (dropWhile int_space (rev (dropWhile int_space ds))) = ds"
proof (cases "ds = []")
  case True
  then show ?thesis by simp
next
  case False
  have a: "dropWhile int_space ds = ds"
    using False assms by (intro dropWhile_hd) (auto simp: list_all_iff digit_not_space)
  have "\<not> int_space (hd (rev ds))"
    using False assms by (simp add: hd_rev list_all_iff digit_not_space)
  then have "dropWhile int_space (rev ds) = rev ds"
    using False by (intro dropWhile_hd) auto
  with a show ?thesis by simp
qed

lemma py_int_digits:
  assumes "list_all is_digit ds" "ds \<noteq> []"
  shows "py_int ds = Inr (int (dec_val ds))"
proof -
  obtain c cs where ds: "ds = c # cs" using assms(2) by (cases ds) auto
  then have "c \<noteq> 45 \<and> c \<noteq> 43" using assms(1) digit_not_sign by simp
  then show ?thesis
    using int_unsigned_digits [OF assms] strip_digits [OF assms(1)] ds
    by (simp add: py_int_def)
qed

lemma split_on_absent: "sep \<notin> set xs \<Longrightarrow> split_on sep xs = [xs]"
  by (induction xs) auto

lemma split_on_once:
  "sep \<notin> set ys \<Longrightarrow> sep \<notin> set ds \<Longrightarrow> split_on sep (ys @ sep # ds) = [ys, ds]"
  by (induction ys) (auto simp: split_on_absent)

lemma digits_no_dash: "list_all is_digit ds \<Longrightarrow> 45 \<notin> set ds"
  using digit_not_sign by (auto simp: list_all_iff)

lemma split_id_digits:
  assumes "list_all is_digit ys" "ys \<noteq> []" "list_all is_digit ds" "ds \<noteq> []"
  shows "split_id (ys @ u ''-'' @ ds) = Inr (int (dec_val ys), int (dec_val ds), length ds)"
  using assms
  by (simp add: u_simps split_id_def split_on_once digits_no_dash py_int_digits)

lemma dec_val_lt: "list_all is_digit ds \<Longrightarrow> dec_val ds < 10 ^ length ds"
proof (induction ds rule: rev_induct)
  case Nil
  then show ?case by simp
next
  case (snoc x xs)
  then have "dec_val xs < 10 ^ length xs" "digit_val x < 10"
    by (simp_all add: digit_val_lt)
  then have "10 * dec_val xs + digit_val x < 10 * 10 ^ length xs" by linarith
  then show ?case by simp
qed

lemma digits_of_ascii: "list_all ascii_digit (digits_of n)"
  by (induction n rule: digits_of.induct)
    (subst digits_of.simps, auto simp: ascii_digit_def list_all_iff)


lemma digit_val_ascii: "ascii_digit c \<Longrightarrow> digit_val c = c - 48"
  by (simp add: digit_val_def ascii_digit_def)

lemma digit_val_small: "d < 10 \<Longrightarrow> digit_val (48 + d) = d"
  by (simp add: digit_val_def)

lemma dec_val_digits_of: "dec_val (digits_of n) = n"
proof (induction n rule: digits_of.induct)
  case (1 n)
  show ?case
  proof (cases "n < 10")
    case True
    then have "digits_of n = [] @ [48 + n]" by (subst digits_of.simps) simp
    then show ?thesis using True by (simp only: dec_val_simps) (simp add: digit_val_small)
  next
    case False
    then have "digits_of n = digits_of (n div 10) @ [48 + n mod 10]"
      by (subst digits_of.simps) simp
    then show ?thesis using False 1 by (simp add: digit_val_small)
  qed
qed

lemma length_digits_of: "0 < w \<Longrightarrow> n < 10 ^ w \<Longrightarrow> length (digits_of n) \<le> w"
proof (induction n arbitrary: w rule: digits_of.induct)
  case (1 n)
  show ?case
  proof (cases "n < 10")
    case True
    then show ?thesis using 1(2) by (subst digits_of.simps) simp
  next
    case False
    then obtain w' where w: "w = Suc w'" "0 < w'"
      using 1(2,3) by (cases w; cases "w - 1") auto
    then have "n div 10 < 10 ^ w'" using 1(3) by (simp add: less_mult_imp_div_less mult.commute)
    then have "length (digits_of (n div 10)) \<le> w'" using 1(1) False w by simp
    then show ?thesis using False w by (subst digits_of.simps) simp
  qed
qed

lemma dec_val_zeros: "dec_val (replicate k 48 @ xs) = dec_val xs"
  by (induction k) (simp_all add: dec_val_def digit_val_def)

lemma zfill_props:
  assumes "0 < w" "n < 10 ^ w"
  shows "length (zfill w (digits_of n)) = w" "list_all ascii_digit (zfill w (digits_of n))"
    "dec_val (zfill w (digits_of n)) = n"
  using length_digits_of [OF assms] digits_of_ascii [of n]
  by (auto simp: zfill_def dec_val_zeros dec_val_digits_of ascii_digit_def list_all_iff)

lemma dec_val_inj:
  "list_all ascii_digit xs \<Longrightarrow> list_all ascii_digit ys \<Longrightarrow> length xs = length ys \<Longrightarrow>
   dec_val xs = dec_val ys \<Longrightarrow> xs = ys"
proof (induction xs arbitrary: ys rule: rev_induct)
  case Nil
  then show ?case by simp
next
  case (snoc x xs)
  then obtain y ys' where ys: "ys = ys' @ [y]"
    by (cases ys rule: rev_cases) auto
  have dx: "digit_val x < 10" "digit_val y < 10" "digit_val x = x - 48" "digit_val y = y - 48"
    "48 \<le> x" "48 \<le> y"
    using snoc.prems ys by (auto simp: digit_val_def ascii_digit_def)
  have e: "10 * dec_val xs + digit_val x = 10 * dec_val ys' + digit_val y"
    using snoc.prems(4) ys by simp
  from e dx(1,2) have "digit_val x = digit_val y" "dec_val xs = dec_val ys'" by presburger+
  moreover have "xs = ys'"
    using snoc.IH [of ys'] snoc.prems ys \<open>dec_val xs = dec_val ys'\<close> by simp
  ultimately show ?case using ys dx by simp
qed

lemma zfill_dec_val:
  assumes "list_all ascii_digit ds" "ds \<noteq> []"
  shows "zfill (length ds) (digits_of (dec_val ds)) = ds"
proof -
  have d: "list_all is_digit ds" using assms(1) by (auto simp: list_all_iff ascii_digit_is_digit)
  have w: "0 < length ds" using assms(2) by simp
  show ?thesis
    using zfill_props [OF w dec_val_lt [OF d]] assms(1)
    by (intro dec_val_inj) simp_all
qed

lemma digits_of_dec_val:
  "list_all ascii_digit ys \<Longrightarrow> ys \<noteq> [] \<Longrightarrow> hd ys \<noteq> 48 \<or> ys = [48] \<Longrightarrow>
   digits_of (dec_val ys) = ys \<and> (hd ys \<noteq> 48 \<longrightarrow> 0 < dec_val ys)"
proof (induction ys rule: rev_induct)
  case Nil
  then show ?case by simp
next
  case (snoc x xs)
  have x: "48 \<le> x" "x \<le> 57" "digit_val x = x - 48"
    using snoc.prems(1) by (auto simp: ascii_digit_def digit_val_def)
  show ?case
  proof (cases "xs = []")
    case True
    then show ?thesis using x snoc.prems by (subst digits_of.simps) (auto simp: dec_val_def)
  next
    case False
    then have h: "hd xs \<noteq> 48" using snoc.prems(3) by auto
    then have ih: "digits_of (dec_val xs) = xs" "0 < dec_val xs"
      using snoc.IH snoc.prems(1) False by auto
    have "digits_of (10 * dec_val xs + digit_val x) =
          digits_of ((10 * dec_val xs + digit_val x) div 10) @ [48 + (10 * dec_val xs + digit_val x) mod 10]"
      using ih(2) by (subst digits_of.simps) simp
    also have "\<dots> = xs @ [x]"
    proof -
      define d where "d = x - 48"
      have d: "x = 48 + d" "d < 10" using x(1,2) by (simp_all add: d_def)
      have "digit_val x = d" using d by (simp add: digit_val_small)
      then show ?thesis using ih(1) d by simp
    qed
    finally show ?thesis using ih(2) by simp
  qed
qed

lemma digits_of_numeral:
  "digits_of (numeral k) =
     (if (numeral k :: nat) < 10 then [48 + numeral k]
      else digits_of (numeral k div 10) @ [48 + numeral k mod 10])"
  by (subst digits_of.simps) simp

lemma digits_of_small: "digits_of 0 = [48]" "digits_of (Suc 0) = [49]"
  by (subst digits_of.simps, simp)+

lemmas text_eval = u_simps
  py_int_def int_unsigned_def int_space_def py_isspace_def is_digit_def ascii_digit_def
  digit_val_def str_int_def format_0d_def zfill_def digits_of_numeral digits_of_small
  starts_with_def py_strip_def

lemmas ids_eval = split_id_def subtract_steps_def iter_ids_def format_id_def text_eval upto.simps

lemma py_int_ascii:
  assumes "list_all ascii_digit rs" "rs \<noteq> []"
  shows "py_int rs = Inr (int (dec_val rs))"
  using assms by (intro py_int_digits) (auto simp: list_all_iff ascii_digit_is_digit)

lemma format_0d_props:
  assumes "0 \<le> i" "0 < w" "nat i < 10 ^ w"
  shows "length (format_0d i w) = w" "list_all ascii_digit (format_0d i w)"
    "py_int (format_0d i w) = Inr i"
proof -
  have f: "format_0d i w = zfill w (digits_of (nat i))"
    using assms(1) by (simp add: format_0d_def)
  show l: "length (format_0d i w) = w" and a: "list_all ascii_digit (format_0d i w)"
    using zfill_props [OF assms(2,3)] f by simp_all
  have "format_0d i w \<noteq> []" using l assms(2) by auto
  then show "py_int (format_0d i w) = Inr i"
    using py_int_ascii [OF a] zfill_props(3) [OF assms(2,3)] f assms(1) by simp
qed

lemma subtract_steps_digits:
  assumes "ys \<noteq> []" "list_all is_digit ys" "ds \<noteq> []" "list_all is_digit ds" "0 \<le> n"
  shows "split_id (ys @ u ''-'' @ ds) = Inr (int (dec_val ys), int (dec_val ds), length ds) \<and>
    (\<exists>rs. subtract_steps (ys @ u ''-'' @ ds) n = Inr (str_int (int (dec_val ys)) @ u ''-'' @ rs) \<and>
          length rs = length ds \<and> list_all ascii_digit rs \<and>
          py_int rs = Inr (max 0 (int (dec_val ds) - n))) \<and>
    (list_all ascii_digit (ys @ ds) \<and> (hd ys \<noteq> 48 \<or> ys = [48]) \<longrightarrow>
       subtract_steps (ys @ u ''-'' @ ds) 0 = Inr (ys @ u ''-'' @ ds))"
proof (intro conjI impI)
  show sp: "split_id (ys @ u ''-'' @ ds) = Inr (int (dec_val ys), int (dec_val ds), length ds)"
    using assms by (intro split_id_digits)
  let ?m = "max 0 (int (dec_val ds) - n)"
  have w: "0 < length ds" using assms(3) by simp
  have "nat ?m \<le> dec_val ds" using assms(5) by simp
  also have "\<dots> < 10 ^ length ds" by (rule dec_val_lt [OF assms(4)])
  finally have m: "0 \<le> ?m" "nat ?m < 10 ^ length ds" by (simp, assumption)
  have "subtract_steps (ys @ u ''-'' @ ds) n =
        Inr (str_int (int (dec_val ys)) @ u ''-'' @ format_0d ?m (length ds))"
    using assms(5) by (simp add: subtract_steps_def sp format_id_def max_def)
  then show "\<exists>rs. subtract_steps (ys @ u ''-'' @ ds) n = Inr (str_int (int (dec_val ys)) @ u ''-'' @ rs) \<and>
          length rs = length ds \<and> list_all ascii_digit rs \<and> py_int rs = Inr ?m"
    using format_0d_props [OF m(1) w m(2)] by blast
next
  assume a: "list_all ascii_digit (ys @ ds) \<and> (hd ys \<noteq> 48 \<or> ys = [48])"
  have sp: "split_id (ys @ u ''-'' @ ds) = Inr (int (dec_val ys), int (dec_val ds), length ds)"
    using assms by (intro split_id_digits)
  have y: "digits_of (dec_val ys) = ys"
    using digits_of_dec_val [of ys] a assms(1) by simp
  have d: "zfill (length ds) (digits_of (dec_val ds)) = ds"
    using zfill_dec_val [of ds] a assms(3) by simp
  show "subtract_steps (ys @ u ''-'' @ ds) 0 = Inr (ys @ u ''-'' @ ds)"
    by (simp add: subtract_steps_def sp format_id_def str_int_def format_0d_def y d)
qed

text \<open>
  Claim C4, as the code has it. For an identifier made of one or more decimal digits,
  \<^verbatim>\<open>-\<close>, and one or more decimal digits, and for \<open>n \<ge> 0\<close>, \<^verbatim>\<open>subtract_steps\<close> returns the year
  in plain decimal, \<^verbatim>\<open>-\<close>, and a sequence part of ASCII digits that has the digit width of
  the input and denotes \<open>max 0 (sequence - n)\<close>, so it is never negative. With \<open>n = 0\<close> the
  result is the identifier itself when that is written in ASCII digits and its year has
  no leading zero.
\<close>

theorem subtract_steps_clamped:
  assumes "ys \<noteq> []" "list_all is_digit ys" "ds \<noteq> []" "list_all is_digit ds" "0 \<le> n"
  shows "split_id (ys @ u ''-'' @ ds) = Inr (int (dec_val ys), int (dec_val ds), length ds) \<and>
    (\<exists>rs. subtract_steps (ys @ u ''-'' @ ds) n = Inr (str_int (int (dec_val ys)) @ u ''-'' @ rs) \<and>
          length rs = length ds \<and> list_all ascii_digit rs \<and>
          py_int rs = Inr (max 0 (int (dec_val ds) - n))) \<and>
    (list_all ascii_digit (ys @ ds) \<and> (hd ys \<noteq> 48 \<or> ys = [48]) \<longrightarrow>
       subtract_steps (ys @ u ''-'' @ ds) 0 = Inr (ys @ u ''-'' @ ds))"
  using assms by (rule subtract_steps_digits)

theorem subtract_steps_clamped_witness:
  "u ''2024'' \<noteq> [] \<and> list_all is_digit (u ''2024'') \<and> u ''0100'' \<noteq> [] \<and>
   list_all is_digit (u ''0100'') \<and> (0::int) \<le> 5 \<and>
   subtract_steps (u ''2024-0100'') 5 = Inr (u ''2024-0095'') \<and>
   subtract_steps (u ''2024-0100'') 500 = Inr (u ''2024-0000'') \<and>
   subtract_steps (u ''2024-0100'') 0 = Inr (u ''2024-0100'')"
proof -
  have h: "u ''2024'' \<noteq> []" "list_all is_digit (u ''2024'')" "u ''0100'' \<noteq> []"
    "list_all is_digit (u ''0100'')" "(0::int) \<le> 5"
    by (simp_all add: u_simps is_digit_def ascii_digit_def)
  show ?thesis
    using h subtract_steps_clamped [OF h]
    by (simp add: ids_eval)
qed

text \<open>
  Claim C4 as stated fails: \<^verbatim>\<open>0999-5\<close> is accepted by \<^verbatim>\<open>validate_vuln_id\<close>, and zero steps
  back from it give \<^verbatim>\<open>999-5\<close>, since the year is printed as a number. Likewise an
  identifier in Arabic-Indic digits comes back in ASCII digits.
\<close>

theorem subtract_steps_counterexample:
  "validate_vuln_id (u ''0999-5'') \<and> subtract_steps (u ''0999-5'') 0 = Inr (u ''999-5'') \<and>
   validate_vuln_id ([0x662, 0x660, 0x662, 0x664] @ u ''-'' @ [0x661]) \<and>
   subtract_steps ([0x662, 0x660, 0x662, 0x664] @ u ''-'' @ [0x661]) 0 = Inr (u ''2024-1'')"
  by (simp add: validate_vuln_id_unfold ids_eval nd_zeros_def)

lemma iter_ids_digits:
  assumes "ys1 \<noteq> []" "list_all is_digit ys1" "ds1 \<noteq> []" "list_all is_digit ds1"
    and "ys2 \<noteq> []" "list_all is_digit ys2" "ds2 \<noteq> []" "list_all is_digit ds2"
  shows "split_id (ys1 @ u ''-'' @ ds1) = Inr (int (dec_val ys1), int (dec_val ds1), length ds1) \<and>
    split_id (ys2 @ u ''-'' @ ds2) = Inr (int (dec_val ys2), int (dec_val ds2), length ds2) \<and>
    (if dec_val ys1 \<noteq> dec_val ys2 \<or> dec_val ds2 < dec_val ds1
     then iter_ids (ys1 @ u ''-'' @ ds1) (ys2 @ u ''-'' @ ds2) = Inl ValueError
     else \<exists>ids. iter_ids (ys1 @ u ''-'' @ ds1) (ys2 @ u ''-'' @ ds2) = Inr ids \<and>
            length ids = dec_val ds2 - dec_val ds1 + 1 \<and>
            (\<forall>k<length ids. \<exists>rs.
               ids ! k = str_int (int (dec_val ys1)) @ u ''-'' @ rs \<and>
               length rs = max (length ds1) (length ds2) \<and> list_all ascii_digit rs \<and>
               py_int rs = Inr (int (dec_val ds1 + k))))"
proof -
  let ?s = "ys1 @ u ''-'' @ ds1" and ?e = "ys2 @ u ''-'' @ ds2"
  let ?y = "int (dec_val ys1)" and ?n1 = "int (dec_val ds1)" and ?n2 = "int (dec_val ds2)"
  let ?w = "max (length ds1) (length ds2)"
  have s1: "split_id ?s = Inr (?y, ?n1, length ds1)"
    using assms(1-4) by (intro split_id_digits)
  have s2: "split_id ?e = Inr (int (dec_val ys2), ?n2, length ds2)"
    using assms(5-8) by (intro split_id_digits)
  show ?thesis
  proof (cases "dec_val ys1 \<noteq> dec_val ys2 \<or> dec_val ds2 < dec_val ds1")
    case True
    then show ?thesis using s1 s2 by (auto simp: iter_ids_def)
  next
    case False
    let ?ids = "map (\<lambda>i. format_id ?y i ?w) [?n1..?n2]"
    have it: "iter_ids ?s ?e = Inr ?ids"
      using False s1 s2 by (auto simp: iter_ids_def)
    have len: "length ?ids = dec_val ds2 - dec_val ds1 + 1"
      using False by auto
    have "0 < length ds1" using assms(3) by simp
    then have w: "0 < ?w" by linarith
    have nth: "\<exists>rs. ?ids ! k = str_int ?y @ u ''-'' @ rs \<and> length rs = ?w \<and>
                 list_all ascii_digit rs \<and> py_int rs = Inr (int (dec_val ds1 + k))"
      if k: "k < length ?ids" for k
    proof -
      let ?i = "?n1 + int k"
      have le: "?i \<le> ?n2" using k len by simp
      have e: "[?n1..?n2] ! k = ?i" using le by (simp add: nth_upto)
      have "dec_val ds2 < 10 ^ length ds2" by (rule dec_val_lt [OF assms(8)])
      also have "\<dots> \<le> (10::nat) ^ ?w" by (intro power_increasing) simp_all
      finally have b: "nat ?i < 10 ^ ?w" using le by linarith
      have i0: "0 \<le> ?i" by simp
      have "?ids ! k = str_int ?y @ u ''-'' @ format_0d ?i ?w"
        using k e by (simp add: format_id_def)
      then show ?thesis
        using format_0d_props [OF i0 w b] by (intro exI [of _ "format_0d ?i ?w"]) simp
    qed
    show ?thesis
      using s1 s2 False it len nth by (simp del: length_map)
  qed
qed

text \<open>
  Claim C3. For two identifiers made of one or more decimal digits, \<^verbatim>\<open>-\<close>, and one or more
  decimal digits: when the years differ or the end sequence is below the start sequence,
  \<^verbatim>\<open>iter_ids\<close> raises \<^verbatim>\<open>ValueError\<close>; otherwise it returns \<open>end - start + 1\<close> identifiers,
  the \<open>k\<close>-th of which is the year, \<^verbatim>\<open>-\<close>, and the sequence \<open>start + k\<close> written in ASCII
  digits, zero-padded to the larger of the two digit widths. So the sequences are
  contiguous and strictly increasing.
\<close>

theorem iter_ids_range:
  assumes "ys1 \<noteq> []" "list_all is_digit ys1" "ds1 \<noteq> []" "list_all is_digit ds1"
    and "ys2 \<noteq> []" "list_all is_digit ys2" "ds2 \<noteq> []" "list_all is_digit ds2"
  shows "split_id (ys1 @ u ''-'' @ ds1) = Inr (int (dec_val ys1), int (dec_val ds1), length ds1) \<and>
    split_id (ys2 @ u ''-'' @ ds2) = Inr (int (dec_val ys2), int (dec_val ds2), length ds2) \<and>
    (if dec_val ys1 \<noteq> dec_val ys2 \<or> dec_val ds2 < dec_val ds1
     then iter_ids (ys1 @ u ''-'' @ ds1) (ys2 @ u ''-'' @ ds2) = Inl ValueError
     else \<exists>ids. iter_ids (ys1 @ u ''-'' @ ds1) (ys2 @ u ''-'' @ ds2) = Inr ids \<and>
            length ids = dec_val ds2 - dec_val ds1 + 1 \<and>
            (\<forall>k<length ids. \<exists>rs.
               ids ! k = str_int (int (dec_val ys1)) @ u ''-'' @ rs \<and>
               length rs = max (length ds1) (length ds2) \<and> list_all ascii_digit rs \<and>
               py_int rs = Inr (int (dec_val ds1 + k))))"
  using assms by (rule iter_ids_digits)

theorem iter_ids_range_witness:
  "u ''2024'' \<noteq> [] \<and> list_all is_digit (u ''2024'') \<and> u ''8'' \<noteq> [] \<and> list_all is_digit (u ''8'') \<and>
   u ''011'' \<noteq> [] \<and> list_all is_digit (u ''011'') \<and>
   iter_ids (u ''2024-8'') (u ''2024-011'') =
     Inr [u ''2024-008'', u ''2024-009'', u ''2024-010'', u ''2024-011''] \<and>
   iter_ids (u ''2024-8'') (u ''2023-011'') = Inl ValueError \<and>
   iter_ids (u ''2024-011'') (u ''2024-8'') = Inl ValueError"
proof -
  have h: "u ''2024'' \<noteq> []" "list_all is_digit (u ''2024'')" "u ''8'' \<noteq> []"
    "list_all is_digit (u ''8'')" "u ''011'' \<noteq> []" "list_all is_digit (u ''011'')"
    by (simp_all add: u_simps is_digit_def ascii_digit_def)
  show ?thesis
    using h iter_ids_range [OF h(1-4) h(1,2) h(5,6)]
    by (simp add: ids_eval)
qed

section \<open>Verification: correlation\<close>

lemmas re_eval = re_match_def re_finditer.simps re_search_def re_findall_def re_split_def
  re_split_from.simps group_def

lemmas corr_eval = normalize_text_def py_lower_def lower_char_def token_char_def
  parse_version_def dec_val_def compare_versions_def ver_char_def ver_token_def
  add_constraints_def extract_version_constraints_def version_satisfies_def
  version_is_vulnerable_def or_empty_def

lemmas match_eval = match_pair_def match_software_def match_vulns_for_agent_def
  tokens_similarity_def SIM_THRESHOLD_NAME_def SIM_THRESHOLD_VENDOR_def








lemma strip_plain: "s \<noteq> [] \<Longrightarrow> \<not> py_isspace (hd s) \<Longrightarrow> \<not> py_isspace (last s) \<Longrightarrow> py_strip s = s"
proof -
  assume a: "s \<noteq> []" "\<not> py_isspace (hd s)" "\<not> py_isspace (last s)"
  have "dropWhile py_isspace s = s" using a by (intro dropWhile_hd)
  moreover have "dropWhile py_isspace (rev s) = rev s"
    using a by (intro dropWhile_hd) (simp_all add: hd_rev)
  ultimately show ?thesis by (simp add: py_strip_def)
qed



lemma strip_empty: "py_strip [] = []"
  by (simp add: py_strip_def)

lemma evc: "extract_version_constraints (u ''Adobe Acrobat Reader DC'') = []"
  by (simp add: corr_eval re_eval text_eval)




lemma evc_before: "extract_version_constraints (u ''before 7.3.1'') = [before_731]"
  by (simp add: before_731_def corr_eval re_eval text_eval)

lemma evc_acme: "extract_version_constraints (u ''Acme Widget before 7.3.1'') = [before_731]"
  by (simp add: before_731_def corr_eval re_eval text_eval)

lemma pv720: "parse_version (u ''7.2.0'') = Some [7, 2, 0]"
  by (simp add: corr_eval re_eval text_eval)

lemma pv750: "parse_version (u ''7.5.0'') = Some [7, 5, 0]"
  by (simp add: corr_eval re_eval text_eval)

lemma viv_720:
  assumes "extract_version_constraints p = [before_731]"
  shows "version_is_vulnerable (Some (u ''7.2.0'')) p = u ''match''"
proof -
  have "u ''7.2.0'' \<noteq> []" by (simp add: u_simps)
  then show ?thesis
    by (simp add: version_is_vulnerable_def pv720 assms before_731_def version_satisfies_def
        compare_versions_def)
qed

lemma viv_750:
  assumes "extract_version_constraints p = [before_731]"
  shows "version_is_vulnerable (Some (u ''7.5.0'')) p = u ''mismatch''"
proof -
  have "u ''7.5.0'' \<noteq> []" by (simp add: u_simps)
  then show ?thesis
    by (simp add: version_is_vulnerable_def pv750 assms before_731_def version_satisfies_def
        compare_versions_def)
qed

lemma match_ne: "u ''match'' \<noteq> u ''mismatch''"
  by (simp add: u_simps)

lemma entries_add_match:
  "set (pairs_of (add_match ms vid v item)) = insert (vid, fst item, snd item) (set (pairs_of ms))"
proof (induction ms vid v item rule: add_match.induct)
  case (1 vid v item)
  then show ?case by (cases item) (simp add: pairs_of_def)
next
  case (2 k v' items rest vid v item)
  then show ?case by (cases item) (auto simp: pairs_of_def)
qed

lemma match_pair_eq:
  assumes "py_strip (soft_name sw) \<noteq> []"
  shows "match_pair sw (py_strip (or_empty (soft_publisher sw)))
           (normalize_text (py_strip (soft_name sw)))
           (normalize_text (py_strip (or_empty (soft_publisher sw)))) ms v =
         (if passes_tests sw v \<and> verdict_of sw v \<noteq> u ''mismatch''
          then add_match ms (vuln_id v) v (sw, verdict_of sw v) else ms)"
  using assms by (auto simp: match_pair_def passes_tests_def verdict_of_def Let_def not_less)

lemma match_pairs_entries:
  assumes "py_strip (soft_name sw) \<noteq> []"
  shows "set (pairs_of (foldl (match_pair sw (py_strip (or_empty (soft_publisher sw)))
           (normalize_text (py_strip (soft_name sw)))
           (normalize_text (py_strip (or_empty (soft_publisher sw))))) ms vulns)) =
         set (pairs_of ms) \<union>
         {(vuln_id v, sw, verdict_of sw v) | v.
            v \<in> set vulns \<and> passes_tests sw v \<and> verdict_of sw v \<noteq> u ''mismatch''}"
proof (induction vulns arbitrary: ms)
  case Nil
  then show ?case by simp
next
  case (Cons v vulns)
  let ?f = "match_pair sw (py_strip (or_empty (soft_publisher sw)))
           (normalize_text (py_strip (soft_name sw)))
           (normalize_text (py_strip (or_empty (soft_publisher sw))))"
  have "set (pairs_of (foldl ?f ms (v # vulns))) =
        set (pairs_of (?f ms v)) \<union>
        {(vuln_id v, sw, verdict_of sw v) | v.
            v \<in> set vulns \<and> passes_tests sw v \<and> verdict_of sw v \<noteq> u ''mismatch''}"
    using Cons.IH [of "?f ms v"] by simp
  moreover have "set (pairs_of (?f ms v)) =
        set (pairs_of ms) \<union>
        (if passes_tests sw v \<and> verdict_of sw v \<noteq> u ''mismatch''
         then {(vuln_id v, sw, verdict_of sw v)} else {})"
    unfolding match_pair_eq [OF assms] by (simp add: entries_add_match)
  ultimately show ?case by auto
qed

lemma match_software_entries:
  "set (pairs_of (match_software vulns ms sw)) =
     set (pairs_of ms) \<union>
     {(vuln_id v, sw, verdict_of sw v) | v.
        v \<in> set vulns \<and> passes_tests sw v \<and> verdict_of sw v \<noteq> u ''mismatch''}"
proof (cases "py_strip (soft_name sw) = []")
  case True
  then show ?thesis by (simp add: match_software_def passes_tests_def)
next
  case False
  then show ?thesis
    using match_pairs_entries [OF False, of ms vulns] by (simp add: match_software_def Let_def)
qed

lemma match_all_entries:
  "set (pairs_of (foldl (match_software vulns) ms sws)) =
     set (pairs_of ms) \<union>
     {(vuln_id v, sw, verdict_of sw v) | sw v.
        sw \<in> set sws \<and> v \<in> set vulns \<and> passes_tests sw v \<and> verdict_of sw v \<noteq> u ''mismatch''}"
proof (induction sws arbitrary: ms)
  case Nil
  then show ?case by simp
next
  case (Cons sw sws)
  have "set (pairs_of (foldl (match_software vulns) ms (sw # sws))) =
        set (pairs_of (match_software vulns ms sw)) \<union>
        {(vuln_id v, sw, verdict_of sw v) | sw v.
           sw \<in> set sws \<and> v \<in> set vulns \<and> passes_tests sw v \<and>
           verdict_of sw v \<noteq> u ''mismatch''}"
    using Cons.IH [of "match_software vulns ms sw"] by simp
  then show ?case unfolding match_software_entries by auto
qed

lemma result_entries:
  assumes "soft_by_agent (agent_id agent) = Some rows"
  shows "set (pairs_of (match_vulns_for_agent agent soft_by_agent vulns)) =
     {(vuln_id v, sw, verdict_of sw v) | sw v.
        sw \<in> set rows \<and> v \<in> set vulns \<and> passes_tests sw v \<and> verdict_of sw v \<noteq> u ''mismatch''}"
  using match_all_entries [of vulns "[]" rows] assms
  by (simp add: match_vulns_for_agent_def pairs_of_def)

lemma same_vuln:
  assumes "distinct (map vuln_id vulns)" "v \<in> set vulns" "w \<in> set vulns" "vuln_id w = vuln_id v"
  shows "w = v"
  using assms by (meson distinct_map inj_onD)

text \<open>
  Claim C6, as the code has it. The product texts \<^verbatim>\<open>before 7.3.1\<close> and
  \<^verbatim>\<open>Acme Widget before 7.3.1\<close> yield the single constraint \<open>< (7,3,1)\<close>. For every product text
  that yields this single constraint, the installed version \<^verbatim>\<open>7.2.0\<close> gets the verdict
  \<^verbatim>\<open>match\<close> and \<^verbatim>\<open>7.5.0\<close> the verdict \<^verbatim>\<open>mismatch\<close>. In the result of the correlation for an agent,
  over disclosures with distinct ids, a software row of the agent with the version
  \<^verbatim>\<open>7.5.0\<close> is not among the pairs of such a disclosure, with no verdict; a row with the
  version \<^verbatim>\<open>7.2.0\<close> is among them, with the verdict \<^verbatim>\<open>match\<close>, exactly when the pair passes the
  tests on the name and the vendor.
\<close>

theorem before_731_scenario:
  "extract_version_constraints (u ''before 7.3.1'') = [before_731] \<and>
   extract_version_constraints (u ''Acme Widget before 7.3.1'') = [before_731] \<and>
   (\<forall>p. extract_version_constraints p = [before_731] \<longrightarrow>
      version_is_vulnerable (Some (u ''7.2.0'')) p = u ''match'' \<and>
      version_is_vulnerable (Some (u ''7.5.0'')) p = u ''mismatch'') \<and>
   (\<forall>agent soft_by_agent rows vulns sw v.
      soft_by_agent (agent_id agent) = Some rows \<and> sw \<in> set rows \<and>
      v \<in> set vulns \<and> distinct (map vuln_id vulns) \<and>
      extract_version_constraints (py_strip (or_empty (vuln_product v))) = [before_731] \<longrightarrow>
        (soft_version sw = Some (u ''7.5.0'') \<longrightarrow>
           (\<forall>verdict. (vuln_id v, sw, verdict) \<notin>
              set (pairs_of (match_vulns_for_agent agent soft_by_agent vulns)))) \<and>
        (soft_version sw = Some (u ''7.2.0'') \<longrightarrow>
           ((vuln_id v, sw, u ''match'') \<in>
              set (pairs_of (match_vulns_for_agent agent soft_by_agent vulns)) \<longleftrightarrow>
            passes_tests sw v)))"
proof (intro conjI allI impI)
  show "extract_version_constraints (u ''before 7.3.1'') = [before_731]"
    by (rule evc_before)
  show "extract_version_constraints (u ''Acme Widget before 7.3.1'') = [before_731]"
    by (rule evc_acme)
next
  fix p assume "extract_version_constraints p = [before_731]"
  then show "version_is_vulnerable (Some (u ''7.2.0'')) p = u ''match''"
    "version_is_vulnerable (Some (u ''7.5.0'')) p = u ''mismatch''"
    by (rule viv_720, rule viv_750)
next
  fix agent :: agent_row and soft_by_agent rows vulns and sw :: software_row and v :: vuln_row
    and verdict
  assume a: "soft_by_agent (agent_id agent) = Some rows \<and> sw \<in> set rows \<and>
      v \<in> set vulns \<and> distinct (map vuln_id vulns) \<and>
      extract_version_constraints (py_strip (or_empty (vuln_product v))) = [before_731]"
    and n: "soft_version sw = Some (u ''7.5.0'')"
  have "verdict_of sw v = u ''mismatch''"
    using a n by (simp add: verdict_of_def viv_750)
  moreover have "w = v" if "w \<in> set vulns" "vuln_id w = vuln_id v" for w
    using a that same_vuln by blast
  ultimately show "(vuln_id v, sw, verdict) \<notin>
      set (pairs_of (match_vulns_for_agent agent soft_by_agent vulns))"
    unfolding result_entries [where soft_by_agent = soft_by_agent and agent = agent
        and rows = rows and vulns = vulns, OF a [THEN conjunct1]] by auto
next
  fix agent :: agent_row and soft_by_agent rows vulns and sw :: software_row and v :: vuln_row
  assume a: "soft_by_agent (agent_id agent) = Some rows \<and> sw \<in> set rows \<and>
      v \<in> set vulns \<and> distinct (map vuln_id vulns) \<and>
      extract_version_constraints (py_strip (or_empty (vuln_product v))) = [before_731]"
    and o: "soft_version sw = Some (u ''7.2.0'')"
  have m: "verdict_of sw v = u ''match''"
    using a o by (simp add: verdict_of_def viv_720)
  have s: "w = v" if "w \<in> set vulns" "vuln_id w = vuln_id v" for w
    using a that same_vuln by blast
  show "(vuln_id v, sw, u ''match'') \<in>
      set (pairs_of (match_vulns_for_agent agent soft_by_agent vulns)) \<longleftrightarrow> passes_tests sw v"
    unfolding result_entries [where soft_by_agent = soft_by_agent and agent = agent
        and rows = rows and vulns = vulns, OF a [THEN conjunct1]]
    using a m s match_ne by auto
qed

lemma nt_before: "normalize_text (u ''before 7.3.1'') = [u ''before'', u ''7'', u ''3'', u ''1'']"
  by (simp add: corr_eval re_eval text_eval)

lemma nt_app: "normalize_text (u ''App 7.3.1'') = [u ''app'', u ''7'', u ''3'', u ''1'']"
  by (simp add: corr_eval re_eval text_eval)

lemma sim_app: "tokens_similarity [u ''app'', u ''7'', u ''3'', u ''1''] [u ''before'', u ''7'', u ''3'', u ''1''] = 3 / 4"
  by (simp add: tokens_similarity_def u_simps)

lemma strip_app: "py_strip (u ''App 7.3.1'') = u ''App 7.3.1''"
  by (rule strip_plain) (simp_all add: u_simps py_isspace_def)

lemma strip_before: "py_strip (u ''before 7.3.1'') = u ''before 7.3.1''"
  by (rule strip_plain) (simp_all add: u_simps py_isspace_def)

lemma app_tests: "passes_tests app_old app_vuln" "passes_tests app_new app_vuln"
proof -
  have "u ''App 7.3.1'' \<noteq> []" "[u ''before'', u ''7'', u ''3'', u ''1''] \<noteq> []" by (simp_all add: u_simps)
  then show "passes_tests app_old app_vuln" "passes_tests app_new app_vuln"
    by (simp_all add: passes_tests_def Let_def app_old_def app_new_def app_vuln_def or_empty_def
        strip_app strip_before strip_empty nt_app nt_before sim_app SIM_THRESHOLD_NAME_def)
qed

lemma match_software_one:
  "match_software [v] ms sw =
     (if passes_tests sw v \<and> verdict_of sw v \<noteq> u ''mismatch''
      then add_match ms (vuln_id v) v (sw, verdict_of sw v) else ms)"
proof (cases "py_strip (soft_name sw) = []")
  case True
  then show ?thesis by (simp add: match_software_def passes_tests_def)
next
  case False
  then show ?thesis by (simp add: match_software_def Let_def match_pair_eq)
qed

theorem before_731_scenario_witness:
  "[u ''host-1'' \<mapsto> [app_old, app_new]] (agent_id host1) = Some [app_old, app_new] \<and>
   app_old \<in> set [app_old, app_new] \<and> app_new \<in> set [app_old, app_new] \<and>
   app_vuln \<in> set [app_vuln] \<and> distinct (map vuln_id [app_vuln]) \<and>
   extract_version_constraints (py_strip (or_empty (vuln_product app_vuln))) = [before_731] \<and>
   soft_version app_old = Some (u ''7.2.0'') \<and> soft_version app_new = Some (u ''7.5.0'') \<and>
   passes_tests app_old app_vuln \<and> passes_tests app_new app_vuln \<and>
   (vuln_id app_vuln, app_old, u ''match'') \<in>
     set (pairs_of (match_vulns_for_agent host1 [u ''host-1'' \<mapsto> [app_old, app_new]] [app_vuln])) \<and>
   (vuln_id app_vuln, app_new, u ''match'') \<notin>
     set (pairs_of (match_vulns_for_agent host1 [u ''host-1'' \<mapsto> [app_old, app_new]] [app_vuln])) \<and>
   (vuln_id app_vuln, app_new, u ''mismatch'') \<notin>
     set (pairs_of (match_vulns_for_agent host1 [u ''host-1'' \<mapsto> [app_old, app_new]] [app_vuln])) \<and>
   match_vulns_for_agent host1 [u ''host-1'' \<mapsto> [app_old, app_new]] [app_vuln] =
     [(3, (app_vuln, [(app_old, u ''match'')]))]"
proof -
  let ?m = "[u ''host-1'' \<mapsto> [app_old, app_new]]"
  have pv: "extract_version_constraints (py_strip (or_empty (vuln_product app_vuln))) = [before_731]"
    "vuln_id app_vuln = 3"
    by (simp_all add: app_vuln_def or_empty_def strip_before evc_before)
  have so: "soft_version app_old = Some (u ''7.2.0'')" "soft_version app_new = Some (u ''7.5.0'')"
    by (simp_all add: app_old_def app_new_def)
  have h: "?m (agent_id host1) = Some [app_old, app_new]"
    by (simp add: host1_def)
  note S = before_731_scenario [THEN conjunct2, THEN conjunct2, THEN conjunct2, rule_format]
  have old: "(vuln_id app_vuln, app_old, u ''match'') \<in>
     set (pairs_of (match_vulns_for_agent host1 ?m [app_vuln]))"
    using S [where agent = host1 and soft_by_agent = ?m and rows = "[app_old, app_new]"
        and vulns = "[app_vuln]" and sw = app_old and v = app_vuln, THEN conjunct2]
      h pv so app_tests by simp
  have new: "(vuln_id app_vuln, app_new, verdict) \<notin>
     set (pairs_of (match_vulns_for_agent host1 ?m [app_vuln]))" for verdict
    using S [where agent = host1 and soft_by_agent = ?m and rows = "[app_old, app_new]"
        and vulns = "[app_vuln]" and sw = app_new and v = app_vuln, THEN conjunct1]
      h pv so by simp
  have vo: "verdict_of app_old app_vuln = u ''match''" "verdict_of app_new app_vuln = u ''mismatch''"
    using pv(1) so by (simp_all add: verdict_of_def viv_720 viv_750)
  have r: "match_vulns_for_agent host1 ?m [app_vuln] = [(3, (app_vuln, [(app_old, u ''match'')]))]"
    by (simp add: match_vulns_for_agent_def host1_def match_software_one app_tests vo match_ne pv(2))
  show ?thesis
    using h pv(1) so app_tests old new [of "u ''match''"] new [of "u ''mismatch''"] r
    by simp
qed

text \<open>
  Claim C6 as stated, for every product text that contains \<^verbatim>\<open>before 7.3.1\<close>, fails: in
  \<^verbatim>\<open>before 7.3.1 through 8.0\<close> the extraction finds two constraints, and the installed
  version \<^verbatim>\<open>7.5.0\<close> satisfies the second, so its verdict is \<^verbatim>\<open>match\<close>.
\<close>

theorem before_731_counterexample:
  "u ''before 7.3.1 through 8.0'' = u ''before 7.3.1'' @ u '' through 8.0'' \<and>
   extract_version_constraints (u ''before 7.3.1 through 8.0'') =
     [before_731, \<lparr>op = u ''<='', v1 = [8, 0], v2 = None\<rparr>] \<and>
   version_is_vulnerable (Some (u ''7.5.0'')) (u ''before 7.3.1 through 8.0'') = u ''match''"
  by (simp add: before_731_def corr_eval re_eval text_eval)

section \<open>Verification: store and ingestion\<close>

lemma dict_get_obj: "dict_get (JObj kvs) key = Inr (obj_get kvs key)"
  by (simp add: dict_get_def)

lemma store_payload_obj:
  "store_payload sv ts now d (JObj kvs) =
     (if \<not> truthy (obj_get kvs (u ''agent_id'')) then (JsonError (u ''agent_id_missing'') 400, d)
      else case call_upsert sv ts now d (obj_get kvs (u ''agent_id''))
                  (py_or (obj_get kvs (u ''os_info'')) (JObj []))
                  (py_or (obj_get kvs (u ''ip_address'')) JNull)
                  (py_or (obj_get kvs (u ''software'')) (JArr [])) of
             Inl e \<Rightarrow> (JsonError (u ''db_error'') 500, d)
           | Inr d' \<Rightarrow> (JsonOk, d'))"
  by (simp add: store_payload_def dict_get_obj Let_def)

lemma store_payload_other:
  "\<forall>kvs. payload \<noteq> JObj kvs \<Longrightarrow> store_payload sv ts now d payload = (InternalServerError, d)"
  by (cases payload) (simp_all add: store_payload_def dict_get_def)

lemma store_payload_no_write:
  "fst (store_payload sv ts now d payload) \<noteq> JsonOk \<Longrightarrow> snd (store_payload sv ts now d payload) = d"
proof (cases "\<exists>kvs. payload = JObj kvs")
  case True
  then obtain kvs where p: "payload = JObj kvs" by blast
  assume "fst (store_payload sv ts now d payload) \<noteq> JsonOk"
  then show ?thesis
    unfolding p store_payload_obj by (simp split: if_splits sum.splits)
next
  case False
  then show ?thesis using store_payload_other [of payload sv ts now d] by simp
qed

lemma agent_report_fields:
  assumes "dict_get (py_or raw (JObj [])) (u ''enc_key'') = Inr ek"
    and "dict_get (py_or raw (JObj [])) (u ''enc_data'') = Inr ed"
  shows "agent_report sv ts now d (Some raw) =
     (if \<not> truthy ek \<or> \<not> truthy ed then (JsonError (u ''enc_key_or_enc_data_missing'') 400, d)
      else case load_private_key sv of
             Inl e \<Rightarrow> (JsonError (u ''private_key_error'') 500, d)
           | Inr priv_key \<Rightarrow>
               (case decrypt_payload sv priv_key ek ed of
                  Inl e \<Rightarrow> (JsonError (u ''decrypt_failed'') 400, d)
                | Inr payload \<Rightarrow> store_payload sv ts now d payload))"
  using assms by (simp add: agent_report_def)

lemma decrypt_short:
  assumes "b64decode_value sv ed = Inr bs" "length bs < 28"
  shows "\<exists>e. decrypt_payload sv k ek ed = Inl e"
proof (cases "b64decode_value sv ek")
  case (Inl e)
  then show ?thesis by (simp add: decrypt_payload_def)
next
  case (Inr kb)
  then show ?thesis
    using assms by (cases "rsa_oaep_decrypt sv k kb") (simp_all add: decrypt_payload_def)
qed

text \<open>
  Claim C1, as the code has it. A request whose \<^verbatim>\<open>enc_data\<close> field decodes to fewer than 28
  bytes never writes to the store. When both fields are truthy and the private key loads,
  the response is \<^verbatim>\<open>decrypt_failed\<close> with status 400.
\<close>

theorem short_enc_data_rejected:
  assumes "dict_get (py_or raw (JObj [])) (u ''enc_key'') = Inr ek"
    and "dict_get (py_or raw (JObj [])) (u ''enc_data'') = Inr ed"
    and "b64decode_value sv ed = Inr bs" and "length bs < 28"
  shows "snd (agent_report sv ts now d (Some raw)) = d \<and>
         (truthy ek \<and> truthy ed \<and> (\<exists>k. load_private_key sv = Inr k) \<longrightarrow>
            fst (agent_report sv ts now d (Some raw)) = JsonError (u ''decrypt_failed'') 400)"
proof -
  note ar = agent_report_fields [OF assms(1,2), of sv ts now d]
  show ?thesis
  proof (cases "truthy ek \<and> truthy ed")
    case False
    then show ?thesis using ar by auto
  next
    case True
    show ?thesis
    proof (cases "load_private_key sv")
      case (Inl e)
      then show ?thesis using ar True by simp
    next
      case (Inr k)
      obtain e where "decrypt_payload sv k ek ed = Inl e"
        using decrypt_short [OF assms(3,4)] by blast
      then show ?thesis using ar True Inr by simp
    qed
  qed
qed

lemma replicate_twenty:
  "replicate 20 (0::nat) = [0, 0, 0, 0, 0, 0, 0, 0, 0, 0, 0, 0, 0, 0, 0, 0, 0, 0, 0, 0]"
  by (simp add: numeral_eq_Suc)

lemma b64_twenty:
  "b64_canonical (u ''AAAAAAAAAAAAAAAAAAAAAAAAAAA='') = Inr (replicate 20 0)"
  by (simp add: replicate_twenty u_simps b64_value_def)

lemma b64_key: "b64_canonical (u ''a2V5'') = Inr [107, 101, 121]"
  by (simp add: u_simps b64_value_def)

lemma key_names: "u ''enc_key'' \<noteq> u ''enc_data''" "u ''enc_data'' \<noteq> u ''enc_key''"
  by (simp_all add: u_simps)

lemma truthy_text: "truthy (JStr (u ''a2V5''))" "truthy (JStr (u ''AAAAAAAAAAAAAAAAAAAAAAAAAAA=''))"
  by (simp_all add: u_simps)

theorem short_enc_data_rejected_witness:
  "dict_get (py_or short_request (JObj [])) (u ''enc_key'') = Inr (JStr (u ''a2V5'')) \<and>
   dict_get (py_or short_request (JObj [])) (u ''enc_data'') =
     Inr (JStr (u ''AAAAAAAAAAAAAAAAAAAAAAAAAAA='')) \<and>
   b64decode_value demo_services (JStr (u ''AAAAAAAAAAAAAAAAAAAAAAAAAAA='')) = Inr (replicate 20 0) \<and>
   length (replicate 20 (0::nat)) < 28 \<and>
   truthy (JStr (u ''a2V5'')) \<and> truthy (JStr (u ''AAAAAAAAAAAAAAAAAAAAAAAAAAA='')) \<and>
   load_private_key demo_services = Inr 0 \<and>
   agent_report demo_services 10 11 empty_db (Some short_request) =
     (JsonError (u ''decrypt_failed'') 400, empty_db)"
proof -
  have h: "dict_get (py_or short_request (JObj [])) (u ''enc_key'') = Inr (JStr (u ''a2V5''))"
    "dict_get (py_or short_request (JObj [])) (u ''enc_data'') =
       Inr (JStr (u ''AAAAAAAAAAAAAAAAAAAAAAAAAAA=''))"
    "b64decode_value demo_services (JStr (u ''AAAAAAAAAAAAAAAAAAAAAAAAAAA='')) = Inr (replicate 20 0)"
    "length (replicate 20 (0::nat)) < 28"
    by (simp_all add: short_request_def py_or_def dict_get_def obj_get_def key_names
        b64decode_value_def demo_services_def b64_twenty)
  have t: "load_private_key demo_services = Inr 0"
    by (simp add: demo_services_def)
  show ?thesis
    using h t truthy_text short_enc_data_rejected [OF h, of 10 11 empty_db]
    by (auto simp: prod_eq_iff)
qed

text \<open>
  Claim C1 as stated, for every request with such an \<^verbatim>\<open>enc_data\<close>, fails on the error kind:
  the empty text decodes to no bytes, and a request without \<^verbatim>\<open>enc_key\<close> may carry 20
  bytes; both are answered \<^verbatim>\<open>enc_key_or_enc_data_missing\<close>, by the check that runs before
  any decoding.
\<close>

theorem short_enc_data_counterexample:
  "b64decode_value demo_services (JStr []) = Inr [] \<and>
   agent_report demo_services 10 11 empty_db (Some empty_data_request) =
     (JsonError (u ''enc_key_or_enc_data_missing'') 400, empty_db) \<and>
   b64decode_value demo_services (JStr (u ''AAAAAAAAAAAAAAAAAAAAAAAAAAA='')) = Inr (replicate 20 0) \<and>
   agent_report demo_services 10 11 empty_db (Some keyless_request) =
     (JsonError (u ''enc_key_or_enc_data_missing'') 400, empty_db)"
  by (simp add: empty_data_request_def keyless_request_def agent_report_def py_or_def dict_get_def
      obj_get_def key_names b64decode_value_def demo_services_def b64_twenty)

subsection \<open>The software of an agent after a report\<close>

lemma field_text_entry: "field_text item key = Inr t \<Longrightarrow> t = entry_text item key"
  by (cases item)
    (auto simp: field_text_def dict_get_def obj_get_def entry_text_def strip_empty
      split: option.splits json.splits if_splits)

lemma field_text_object: "field_text item key = Inr t \<Longrightarrow> \<exists>kvs. item = JObj kvs"
  by (cases item) (auto simp: field_text_def dict_get_def)

lemma software_rows_Cons:
  assumes "software_rows aid now (item # items) = Inr rows"
  shows "\<exists>rest. software_rows aid now items = Inr rest \<and> (\<exists>kvs. item = JObj kvs) \<and>
           rows = (if entry_text item (u ''name'') = [] then rest
                   else stored_entry aid now item # rest)"
proof -
  obtain name where n: "field_text item (u ''name'') = Inr name"
    using assms by (cases "field_text item (u ''name'')") simp_all
  note ne = field_text_entry [OF n]
  note ob = field_text_object [OF n]
  show ?thesis
  proof (cases "name = []")
    case True
    then show ?thesis using assms n ne ob by simp
  next
    case False
    obtain version where v: "field_text item (u ''version'') = Inr version"
      using assms n False by (cases "field_text item (u ''version'')") simp_all
    obtain publisher where p: "field_text item (u ''publisher'') = Inr publisher"
      using assms n False v by (cases "field_text item (u ''publisher'')") simp_all
    obtain rest where r: "software_rows aid now items = Inr rest"
      using assms n False v p by (cases "software_rows aid now items") simp_all
    have "rows = (aid, name, or_none version, or_none publisher, now, now) # rest"
      using assms n False v p r by simp
    then have "rows = stored_entry aid now item # rest"
      using ne field_text_entry [OF v] field_text_entry [OF p]
      by (simp add: stored_entry_def or_none_def)
    then show ?thesis using r ob False ne by simp
  qed
qed

lemma software_rows_expected:
  "software_rows aid now items = Inr rows \<Longrightarrow>
   rows = map (stored_entry aid now) (filter (\<lambda>e. entry_text e (u ''name'') \<noteq> []) items) \<and>
   (\<forall>item\<in>set items. \<exists>kvs. item = JObj kvs)"
proof (induction items arbitrary: rows)
  case Nil
  then show ?case by simp
next
  case (Cons item items)
  obtain rest where r: "software_rows aid now items = Inr rest" "\<exists>kvs. item = JObj kvs"
    "rows = (if entry_text item (u ''name'') = [] then rest else stored_entry aid now item # rest)"
    using software_rows_Cons [OF Cons.prems] by blast
  show ?case using Cons.IH [OF r(1)] r(2) r(3) by simp
qed

lemma iterate_objects:
  assumes "truthy sw" "iterate sw = Inr items" "\<forall>item\<in>set items. \<exists>kvs. item = JObj kvs"
  shows "sw = JArr items"
proof (cases sw)
  case (JStr s)
  then obtain c cs where "s = c # cs" using assms(1) by (cases s) simp_all
  then have "JStr [c] \<in> set items" using assms(2) JStr by (auto simp: iterate_def)
  then show ?thesis using assms(3) by blast
next
  case (JObj kvs)
  then obtain kv rest where "kvs = kv # rest" using assms(1) by (cases kvs) simp_all
  then have "JStr (fst kv) \<in> set items" using assms(2) JObj by (auto simp: iterate_def)
  then show ?thesis using assms(3) by blast
qed (use assms(2) in \<open>simp_all add: iterate_def\<close>)

lemma reported_items:
  assumes "if truthy (py_or sw (JArr [])) then iterate (py_or sw (JArr [])) = Inr items
           else items = []"
    and "\<forall>item\<in>set items. \<exists>kvs. item = JObj kvs"
  shows "items = (case sw of JArr entries \<Rightarrow> entries | _ \<Rightarrow> [])"
proof (cases "truthy sw")
  case True
  then have "sw = JArr items" using assms iterate_objects [of sw items] by (simp add: py_or_def)
  then show ?thesis by simp
next
  case False
  then have "items = []" using assms(1) by (simp add: py_or_def)
  then show ?thesis using False by (cases sw) simp_all
qed

lemma bind_all_seven:
  assumes "bind_all [x0, x1, x2, x3, x4, x5, x6] = Inr vs"
  shows "\<exists>v0 v1 v2 v3 v4 v5 v6. vs = [v0, v1, v2, v3, v4, v5, v6]"
  using assms by (simp split: sum.splits) blast

lemma upsert_unfold:
  assumes "upsert_agent_inventory tr ts now d aid hn ot orl ovn arc ip sw = Inr d'"
  shows "\<exists>new items rows.
           agent_id new = aid \<and>
           (if truthy sw then iterate sw = Inr items else items = []) \<and>
           software_rows aid now items = Inr rows \<and>
           agents d' = upsert_row ts new (agents d) \<and>
           agent_software d' =
             filter (\<lambda>row. soft_agent_id row \<noteq> aid) (agent_software d) @
             insert_software (sw_seq d) rows"
proof -
  obtain vs where b: "bind_all [JStr aid, hn, ot, orl, ovn, arc, ip] = Inr vs"
    using assms by (cases "bind_all [JStr aid, hn, ot, orl, ovn, arc, ip]")
      (simp_all add: upsert_agent_inventory_def)
  obtain v0 v1 v2 v3 v4 v5 v6 where vs: "vs = [v0, v1, v2, v3, v4, v5, v6]"
    using bind_all_seven [OF b] by blast
  define new where "new = \<lparr>agent_id = aid,
                     hostname = text_affinity tr v1,
                     os_type = text_affinity tr v2,
                     os_release = text_affinity tr v3,
                     os_version = text_affinity tr v4,
                     architecture = text_affinity tr v5,
                     ip_address = text_affinity tr v6,
                     first_seen = ts, last_seen = ts\<rparr>"
  define d2 where "d2 = (d\<lparr>agents := upsert_row ts new (agents d)\<rparr>)
     \<lparr>agent_software := filter (\<lambda>row. soft_agent_id row \<noteq> aid)
         (agent_software (d\<lparr>agents := upsert_row ts new (agents d)\<rparr>))\<rparr>"
  have u: "upsert_agent_inventory tr ts now d aid hn ot orl ovn arc ip sw =
     (if truthy sw then
        (case iterate sw of
           Inl e \<Rightarrow> Inl e
         | Inr items \<Rightarrow>
             (case software_rows aid now items of
                Inl e \<Rightarrow> Inl e
              | Inr rows \<Rightarrow>
                  if list_all bindable_row rows then
                    Inr (d2\<lparr>agent_software := agent_software d2 @ insert_software (sw_seq d2) rows,
                            sw_seq := sw_seq d2 + length rows\<rparr>)
                  else Inl UnicodeEncodeError))
      else Inr d2)"
    unfolding upsert_agent_inventory_def b vs new_def d2_def Let_def
    by (simp split: sum.splits)
  have n: "agent_id new = aid" by (simp add: new_def)
  show ?thesis
  proof (cases "truthy sw")
    case False
    then have "d' = d2" using assms u by simp
    then show ?thesis
      using False n by (intro exI [of _ new] exI [of _ "[]"]) (simp add: d2_def)
  next
    case True
    obtain items where i: "iterate sw = Inr items"
      using assms u True by (cases "iterate sw") simp_all
    obtain rows where r: "software_rows aid now items = Inr rows"
      using assms u True i by (cases "software_rows aid now items") simp_all
    have "d' = d2\<lparr>agent_software := agent_software d2 @ insert_software (sw_seq d2) rows,
                  sw_seq := sw_seq d2 + length rows\<rparr>"
      using assms u True i r by (simp split: if_splits)
    then show ?thesis
      using True n i r by (intro exI [of _ new] exI [of _ items] exI [of _ rows]) (simp add: d2_def)
  qed
qed

lemma call_upsert_unfold:
  assumes "call_upsert sv ts now d v os_info ip sw = Inr d'"
  shows "\<exists>hn ot orl ovn arc.
     upsert_agent_inventory (sqlite_text_of_real sv) ts now d (py_str sv v) hn ot orl ovn arc ip sw
       = Inr d'"
  using assms unfolding call_upsert_def by (simp split: sum.splits) blast

lemma tuple_of_insert: "map software_tuple_of (insert_software seq rows) = rows"
  by (induction seq rows rule: insert_software.induct) (auto simp: software_tuple_of_def)

lemma insert_software_aid:
  "\<forall>t\<in>set rows. fst t = aid \<Longrightarrow>
   filter (\<lambda>row. soft_agent_id row = aid) (insert_software seq rows) = insert_software seq rows \<and>
   filter (\<lambda>row. soft_agent_id row \<noteq> aid) (insert_software seq rows) = []"
  by (induction seq rows rule: insert_software.induct) auto

lemma upsert_row_has: "\<exists>r\<in>set (upsert_row now new rows). agent_id r = agent_id new"
  by (induction rows) auto

lemma agent_report_decrypted:
  "decrypted sv req = Some payload \<Longrightarrow>
   agent_report sv ts now d req = store_payload sv ts now d payload"
  by (auto simp: agent_report_def decrypted_def split: option.splits sum.splits if_splits)

lemma agent_report_undecrypted:
  "decrypted sv req = None \<Longrightarrow> fst (agent_report sv ts now d req) \<noteq> JsonOk"
  by (auto simp: agent_report_def decrypted_def split: option.splits sum.splits if_splits)

lemma agent_report_accepted:
  assumes "agent_report sv ts now d req = (JsonOk, d')"
  shows "\<exists>kvs. decrypted sv req = Some (JObj kvs) \<and> truthy (obj_get kvs (u ''agent_id'')) \<and>
           call_upsert sv ts now d (obj_get kvs (u ''agent_id''))
             (py_or (obj_get kvs (u ''os_info'')) (JObj []))
             (py_or (obj_get kvs (u ''ip_address'')) JNull)
             (py_or (obj_get kvs (u ''software'')) (JArr [])) = Inr d'"
proof -
  obtain payload where p: "decrypted sv req = Some payload"
    using assms agent_report_undecrypted [of sv req ts now d]
    by (cases "decrypted sv req") simp_all
  have s: "store_payload sv ts now d payload = (JsonOk, d')"
    using assms agent_report_decrypted [OF p] by simp
  then obtain kvs where k: "payload = JObj kvs"
    using store_payload_other [of payload sv ts now d] by auto
  show ?thesis
    using s p unfolding k store_payload_obj
    by (intro exI [of _ kvs]) (simp split: if_splits sum.splits)
qed

lemma accepted_software:
  assumes "agent_report sv ts now d req = (JsonOk, d')"
  shows "agent_software d' =
           filter (\<lambda>row. soft_agent_id row \<noteq> reported_agent sv req) (agent_software d) @
           insert_software (sw_seq d)
             (map (stored_entry (reported_agent sv req) now)
                (filter (\<lambda>e. entry_text e (u ''name'') \<noteq> []) (reported_software sv req)))"
    and "\<exists>r\<in>set (agents d'). agent_id r = reported_agent sv req"
proof -
  obtain kvs where k: "decrypted sv req = Some (JObj kvs)"
    and c: "call_upsert sv ts now d (obj_get kvs (u ''agent_id''))
             (py_or (obj_get kvs (u ''os_info'')) (JObj []))
             (py_or (obj_get kvs (u ''ip_address'')) JNull)
             (py_or (obj_get kvs (u ''software'')) (JArr [])) = Inr d'"
    using agent_report_accepted [OF assms] by blast
  let ?aid = "py_str sv (obj_get kvs (u ''agent_id''))"
  let ?sw = "obj_get kvs (u ''software'')"
  have ra: "reported_agent sv req = ?aid" by (simp add: reported_agent_def k)
  have rs: "reported_software sv req = (case ?sw of JArr entries \<Rightarrow> entries | _ \<Rightarrow> [])"
    by (simp add: reported_software_def k)
  obtain hn ot orl ovn arc where
    "upsert_agent_inventory (sqlite_text_of_real sv) ts now d ?aid hn ot orl ovn arc
       (py_or (obj_get kvs (u ''ip_address'')) JNull) (py_or ?sw (JArr [])) = Inr d'"
    using call_upsert_unfold [OF c] by blast
  then obtain new items rows where u: "agent_id new = ?aid"
    "if truthy (py_or ?sw (JArr [])) then iterate (py_or ?sw (JArr [])) = Inr items else items = []"
    "software_rows ?aid now items = Inr rows"
    "agents d' = upsert_row ts new (agents d)"
    "agent_software d' =
       filter (\<lambda>row. soft_agent_id row \<noteq> ?aid) (agent_software d) @ insert_software (sw_seq d) rows"
    using upsert_unfold by blast
  note e = software_rows_expected [OF u(3)]
  have "items = reported_software sv req"
    unfolding rs using u(2) e [THEN conjunct2] by (rule reported_items)
  then show "agent_software d' =
           filter (\<lambda>row. soft_agent_id row \<noteq> reported_agent sv req) (agent_software d) @
           insert_software (sw_seq d)
             (map (stored_entry (reported_agent sv req) now)
                (filter (\<lambda>e. entry_text e (u ''name'') \<noteq> []) (reported_software sv req)))"
    using u(5) e [THEN conjunct1] by (simp add: ra)
  show "\<exists>r\<in>set (agents d'). agent_id r = reported_agent sv req"
    using upsert_row_has [of ts new "agents d"] u(1) u(4) by (simp add: ra)
qed

text \<open>
  Claim C2. Take two reports that are accepted one after the other (each answered
  \<^verbatim>\<open>ok\<close>) and name the same agent. After the second, the rows of that agent in
  \<^verbatim>\<open>agent_software\<close> are, in order and column by column, the entries of the second
  report's list whose name is not blank: the agent, the stripped name, the stripped
  version and publisher or NULL, and the time of the second report. Nothing of the first
  report remains, and the rows of other agents are as they were before the first report.
\<close>

theorem software_replaced:
  assumes "agent_report sv ts1 now1 d req1 = (JsonOk, d1)"
    and "agent_report sv ts2 now2 d1 req2 = (JsonOk, d2)"
    and "reported_agent sv req1 = reported_agent sv req2"
  shows "map software_tuple_of
           (filter (\<lambda>row. soft_agent_id row = reported_agent sv req2) (agent_software d2)) =
         map (stored_entry (reported_agent sv req2) now2)
           (filter (\<lambda>entry. entry_text entry (u ''name'') \<noteq> []) (reported_software sv req2)) \<and>
         filter (\<lambda>row. soft_agent_id row \<noteq> reported_agent sv req2) (agent_software d2) =
         filter (\<lambda>row. soft_agent_id row \<noteq> reported_agent sv req2) (agent_software d)"
proof -
  define aid where "aid = reported_agent sv req2"
  define rows1 where "rows1 = map (stored_entry aid now1)
      (filter (\<lambda>e. entry_text e (u ''name'') \<noteq> []) (reported_software sv req1))"
  define rows2 where "rows2 = map (stored_entry aid now2)
      (filter (\<lambda>e. entry_text e (u ''name'') \<noteq> []) (reported_software sv req2))"
  have s1: "agent_software d1 =
      filter (\<lambda>row. soft_agent_id row \<noteq> aid) (agent_software d) @ insert_software (sw_seq d) rows1"
    using accepted_software(1) [OF assms(1)] unfolding assms(3) aid_def rows1_def .
  have s2: "agent_software d2 =
      filter (\<lambda>row. soft_agent_id row \<noteq> aid) (agent_software d1) @ insert_software (sw_seq d1) rows2"
    using accepted_software(1) [OF assms(2)] unfolding aid_def rows2_def .
  have "\<forall>t\<in>set rows1. fst t = aid" "\<forall>t\<in>set rows2. fst t = aid"
    by (auto simp: rows1_def rows2_def stored_entry_def)
  note i1 = insert_software_aid [OF this(1), of "sw_seq d"]
    and i2 = insert_software_aid [OF this(2), of "sw_seq d1"]
  have own: "filter (\<lambda>row. soft_agent_id row = aid) (agent_software d2) =
             insert_software (sw_seq d1) rows2"
    unfolding s2 using i2 by simp
  have others: "filter (\<lambda>row. soft_agent_id row \<noteq> aid) (agent_software d2) =
                filter (\<lambda>row. soft_agent_id row \<noteq> aid) (agent_software d)"
    unfolding s2 s1 using i1 i2 by simp
  have "map software_tuple_of (filter (\<lambda>row. soft_agent_id row = aid) (agent_software d2)) = rows2"
    unfolding own by (rule tuple_of_insert)
  then show ?thesis
    using others unfolding aid_def rows2_def by simp
qed

lemma u_nonempty: "u (c # cs) \<noteq> []"
  by (simp add: u_def)

lemma field_names:
  "u ''agent_id'' \<noteq> u ''os_info''" "u ''agent_id'' \<noteq> u ''software''"
  "u ''agent_id'' \<noteq> u ''ip_address''" "u ''software'' \<noteq> u ''os_info''"
  "u ''software'' \<noteq> u ''ip_address''" "u ''software'' \<noteq> u ''agent_id''"
  "u ''os_info'' \<noteq> u ''agent_id''" "u ''os_info'' \<noteq> u ''software''"
  "u ''os_info'' \<noteq> u ''ip_address''" "u ''ip_address'' \<noteq> u ''agent_id''"
  "u ''ip_address'' \<noteq> u ''software''" "u ''ip_address'' \<noteq> u ''os_info''"
  by (simp_all add: u_simps)

lemma plains_differ:
  "plain_zero \<noteq> plain_number" "plain_bad_software \<noteq> plain_number"
  "plain_bad_software \<noteq> plain_zero" "plain_one \<noteq> plain_number" "plain_one \<noteq> plain_zero"
  "plain_one \<noteq> plain_bad_software" "plain_two \<noteq> plain_number" "plain_two \<noteq> plain_zero"
  "plain_two \<noteq> plain_bad_software" "plain_two \<noteq> plain_one"
  by (simp_all add: plain_number_def plain_zero_def plain_bad_software_def plain_one_def
      plain_two_def u_simps)

lemma replicate_zeros:
  "replicate 16 (0::nat) = [0, 0, 0, 0, 0, 0, 0, 0, 0, 0, 0, 0, 0, 0, 0, 0]"
  by (simp add: numeral_eq_Suc)

lemma b64_one:
  "b64_canonical (u ''AAAAAAAAAAAAAAAAAAAAAAAAAAAAAAAAAAAAAHsiYWdlbnRfaWQiOiAiYTEiLCAic29mdHdhcmUiOiBbeyJuYW1lIjogIkFscGhhIiwgInZlcnNpb24iOiAiMS4wIn0sIHsibmFtZSI6ICJCZXRhIiwgInB1Ymxpc2hlciI6ICJBY21lIn1dfQ=='') =
   Inr ([0, 0, 0, 0, 0, 0, 0, 0, 0, 0, 0, 0] @ [0, 0, 0, 0, 0, 0, 0, 0, 0, 0, 0, 0, 0, 0, 0, 0] @
        plain_one)"
  by (simp add: u_simps b64_value_def plain_one_def)

lemma b64_two:
  "b64_canonical (u ''AAAAAAAAAAAAAAAAAAAAAAAAAAAAAAAAAAAAAHsiYWdlbnRfaWQiOiAiYTEiLCAic29mdHdhcmUiOiBbeyJuYW1lIjogIiBHYW1tYSAiLCAidmVyc2lvbiI6ICIiLCAicHVibGlzaGVyIjogIkFjbWUifSwgeyJuYW1lIjogIiAgIn1dfQ=='') =
   Inr ([0, 0, 0, 0, 0, 0, 0, 0, 0, 0, 0, 0] @ [0, 0, 0, 0, 0, 0, 0, 0, 0, 0, 0, 0, 0, 0, 0, 0] @
        plain_two)"
  by (simp add: u_simps b64_value_def plain_two_def)

lemma b64_bad_software:
  "b64_canonical (u ''AAAAAAAAAAAAAAAAAAAAAAAAAAAAAAAAAAAAAHsiYWdlbnRfaWQiOiAiYTEiLCAic29mdHdhcmUiOiA1fQ=='') =
   Inr ([0, 0, 0, 0, 0, 0, 0, 0, 0, 0, 0, 0] @ [0, 0, 0, 0, 0, 0, 0, 0, 0, 0, 0, 0, 0, 0, 0, 0] @
        plain_bad_software)"
  by (simp add: u_simps b64_value_def plain_bad_software_def)

lemma b64_number:
  "b64_canonical (u ''AAAAAAAAAAAAAAAAAAAAAAAAAAAAAAAAAAAAAHsiYWdlbnRfaWQiOiA1fQ=='') =
   Inr ([0, 0, 0, 0, 0, 0, 0, 0, 0, 0, 0, 0] @ [0, 0, 0, 0, 0, 0, 0, 0, 0, 0, 0, 0, 0, 0, 0, 0] @
        plain_number)"
  by (simp add: u_simps b64_value_def plain_number_def)

lemma b64_zero:
  "b64_canonical (u ''AAAAAAAAAAAAAAAAAAAAAAAAAAAAAAAAAAAAAHsiYWdlbnRfaWQiOiAwfQ=='') =
   Inr ([0, 0, 0, 0, 0, 0, 0, 0, 0, 0, 0, 0] @ [0, 0, 0, 0, 0, 0, 0, 0, 0, 0, 0, 0, 0, 0, 0, 0] @
        plain_zero)"
  by (simp add: u_simps b64_value_def plain_zero_def)

lemmas decrypt_eval = decrypted_def py_or_def dict_get_def obj_get_def key_names u_nonempty
  decrypt_payload_def b64decode_value_def demo_services_def b64_key replicate_zeros
  demo_json_loads_def plains_differ

lemma decrypted_one:
  "decrypted demo_services (Some request_one) =
     Some (JObj [(u ''agent_id'', JStr (u ''a1'')), (u ''software'', report_one)])"
  by (simp add: request_one_def decrypt_eval b64_one)

lemma decrypted_two:
  "decrypted demo_services (Some request_two) =
     Some (JObj [(u ''agent_id'', JStr (u ''a1'')), (u ''software'', report_two)])"
  by (simp add: request_two_def decrypt_eval b64_two)

lemma decrypted_bad_software:
  "decrypted demo_services (Some bad_software_request) =
     Some (JObj [(u ''agent_id'', JStr (u ''a1'')), (u ''software'', JInt 5)])"
  by (simp add: bad_software_request_def decrypt_eval b64_bad_software)

lemma decrypted_number:
  "decrypted demo_services (Some number_id_request) = Some (JObj [(u ''agent_id'', JInt 5)])"
  by (simp add: number_id_request_def decrypt_eval b64_number)

lemma decrypted_zero:
  "decrypted demo_services (Some zero_id_request) = Some (JObj [(u ''agent_id'', JInt 0)])"
  by (simp add: zero_id_request_def decrypt_eval b64_zero)

lemmas store_eval = upsert_agent_inventory_def bind_def encodable_def text_affinity_def
  bindable_row_def iterate_def field_text_def dict_get_def or_none_def py_strip_def
  py_isspace_def obj_get_def call_upsert_def py_str_def py_or_def field_names u_simps

lemma first_report:
  "agent_report demo_services 10 11 empty_db (Some request_one) = (JsonOk, db_after_one)"
proof -
  have "call_upsert demo_services 10 11 empty_db (JStr (u ''a1'')) (JObj []) JNull report_one =
        Inr db_after_one"
    by (simp add: report_one_def empty_db_def db_after_one_def store_eval)
  then show ?thesis
    unfolding agent_report_decrypted [OF decrypted_one] store_payload_obj
    by (simp add: obj_get_def field_names py_or_def u_nonempty report_one_def)
qed

lemma second_report:
  "agent_report demo_services 20 21 db_after_one (Some request_two) = (JsonOk, db_after_two)"
proof -
  have "call_upsert demo_services 20 21 db_after_one (JStr (u ''a1'')) (JObj []) JNull report_two =
        Inr db_after_two"
    by (simp add: report_two_def db_after_one_def db_after_two_def store_eval)
  then show ?thesis
    unfolding agent_report_decrypted [OF decrypted_two] store_payload_obj
    by (simp add: obj_get_def field_names py_or_def u_nonempty report_two_def)
qed

lemma reported_demo:
  "reported_agent demo_services (Some request_one) = u ''a1''"
  "reported_agent demo_services (Some request_two) = u ''a1''"
  "reported_software demo_services (Some request_two) =
     [JObj [(u ''name'', JStr (u '' Gamma '')), (u ''version'', JStr []),
            (u ''publisher'', JStr (u ''Acme''))],
      JObj [(u ''name'', JStr (u ''  ''))]]"
  by (simp_all add: reported_agent_def reported_software_def decrypted_one decrypted_two
      obj_get_def field_names py_str_def report_two_def)

theorem software_replaced_witness:
  "agent_report demo_services 10 11 empty_db (Some request_one) = (JsonOk, db_after_one) \<and>
   agent_report demo_services 20 21 db_after_one (Some request_two) = (JsonOk, db_after_two) \<and>
   reported_agent demo_services (Some request_one) = reported_agent demo_services (Some request_two) \<and>
   map software_tuple_of
     (filter (\<lambda>row. soft_agent_id row = u ''a1'') (agent_software db_after_one)) =
     [(u ''a1'', u ''Alpha'', Some (u ''1.0''), None, 11, 11),
      (u ''a1'', u ''Beta'', None, Some (u ''Acme''), 11, 11)] \<and>
   map software_tuple_of
     (filter (\<lambda>row. soft_agent_id row = u ''a1'') (agent_software db_after_two)) =
     [(u ''a1'', u ''Gamma'', None, Some (u ''Acme''), 21, 21)] \<and>
   map (stored_entry (u ''a1'') 21)
     (filter (\<lambda>entry. entry_text entry (u ''name'') \<noteq> [])
        (reported_software demo_services (Some request_two))) =
     [(u ''a1'', u ''Gamma'', None, Some (u ''Acme''), 21, 21)]"
proof -
  have same: "reported_agent demo_services (Some request_one) =
              reported_agent demo_services (Some request_two)"
    by (simp add: reported_demo)
  note T = software_replaced [OF first_report second_report same, THEN conjunct1]
  have two: "map software_tuple_of
     (filter (\<lambda>row. soft_agent_id row = u ''a1'') (agent_software db_after_two)) =
     [(u ''a1'', u ''Gamma'', None, Some (u ''Acme''), 21, 21)]"
    by (simp add: db_after_two_def software_tuple_of_def)
  have one: "map software_tuple_of
     (filter (\<lambda>row. soft_agent_id row = u ''a1'') (agent_software db_after_one)) =
     [(u ''a1'', u ''Alpha'', Some (u ''1.0''), None, 11, 11),
      (u ''a1'', u ''Beta'', None, Some (u ''Acme''), 11, 11)]"
    by (simp add: db_after_one_def software_tuple_of_def)
  show ?thesis
    using T first_report second_report same one two by (simp add: reported_demo(2))
qed

subsection \<open>The agent id of a report\<close>

lemma bindable_row_simp:
  "bindable_row (aid, name, version, publisher, fs, ls) \<longleftrightarrow>
     encodable name \<and> (case version of None \<Rightarrow> True | Some s \<Rightarrow> encodable s) \<and>
     (case publisher of None \<Rightarrow> True | Some s \<Rightarrow> encodable s)"
  by (simp add: bindable_row_def)

lemma bindable_Inr: "bindable x \<Longrightarrow> \<exists>v. bind x = Inr v"
  by (cases "bind x") (simp_all add: bindable_def)

lemma field_text_ok:
  assumes "well_formed_field (obj_get kvs key)"
  shows "\<exists>t. field_text (JObj kvs) key = Inr t \<and> encodable t"
proof (cases "obj_get kvs key")
  case (JStr s)
  then show ?thesis
    using assms by (simp add: field_text_def dict_get_obj well_formed_field_def encodable_def)
qed (use assms in \<open>simp_all add: field_text_def dict_get_obj well_formed_field_def encodable_def\<close>)

lemma software_rows_ok:
  "list_all well_formed_entry entries \<Longrightarrow>
   \<exists>rows. software_rows aid now entries = Inr rows \<and> list_all bindable_row rows"
proof (induction entries)
  case Nil
  then show ?case by simp
next
  case (Cons entry entries)
  then obtain rest where r: "software_rows aid now entries = Inr rest" "list_all bindable_row rest"
    by auto
  obtain kvs where k: "entry = JObj kvs"
    "well_formed_field (obj_get kvs (u ''name''))"
    "well_formed_field (obj_get kvs (u ''version''))"
    "well_formed_field (obj_get kvs (u ''publisher''))"
    using Cons.prems by (cases entry) (simp_all add: well_formed_entry_def)
  obtain name version publisher where f:
    "field_text entry (u ''name'') = Inr name" "encodable name"
    "field_text entry (u ''version'') = Inr version" "encodable version"
    "field_text entry (u ''publisher'') = Inr publisher" "encodable publisher"
    using field_text_ok [OF k(2)] field_text_ok [OF k(3)] field_text_ok [OF k(4)]
    unfolding k(1) by blast
  show ?case
    using r f by (simp add: bindable_row_simp or_none_def)
qed

lemma upsert_ok:
  assumes "encodable aid" "bindable hn" "bindable ot" "bindable orl" "bindable ovn" "bindable arc"
    "bindable ip" "list_all well_formed_entry entries"
  shows "\<exists>d'. upsert_agent_inventory tr ts now d aid hn ot orl ovn arc ip (JArr entries) = Inr d'"
proof -
  obtain v1 v2 v3 v4 v5 v6 where b: "bind hn = Inr v1" "bind ot = Inr v2" "bind orl = Inr v3"
    "bind ovn = Inr v4" "bind arc = Inr v5" "bind ip = Inr v6"
    using assms(2-7) bindable_Inr by meson
  have b0: "bind (JStr aid) = Inr (SqlText aid)" using assms(1) by (simp add: bind_def)
  have ba: "bind_all [JStr aid, hn, ot, orl, ovn, arc, ip] = Inr [SqlText aid, v1, v2, v3, v4, v5, v6]"
    by (simp add: b b0)
  obtain rows where r: "software_rows aid now entries = Inr rows" "list_all bindable_row rows"
    using software_rows_ok [OF assms(8)] by blast
  show ?thesis
    unfolding upsert_agent_inventory_def ba by (simp add: Let_def iterate_def r)
qed

lemma call_upsert_ok:
  assumes "well_formed_report sv kvs"
  shows "\<exists>d'. call_upsert sv ts now d (obj_get kvs (u ''agent_id''))
             (py_or (obj_get kvs (u ''os_info'')) (JObj []))
             (py_or (obj_get kvs (u ''ip_address'')) JNull)
             (py_or (obj_get kvs (u ''software'')) (JArr [])) = Inr d'"
proof -
  obtain info where o: "py_or (obj_get kvs (u ''os_info'')) (JObj []) = JObj info"
    "bindable (obj_get info (u ''hostname''))" "bindable (obj_get info (u ''os_type''))"
    "bindable (obj_get info (u ''os_release''))" "bindable (obj_get info (u ''os_version''))"
    "bindable (obj_get info (u ''architecture''))"
    using assms
    by (cases "py_or (obj_get kvs (u ''os_info'')) (JObj [])") (simp_all add: well_formed_report_def)
  obtain entries where s: "py_or (obj_get kvs (u ''software'')) (JArr []) = JArr entries"
    "list_all well_formed_entry entries"
    using assms
    by (cases "py_or (obj_get kvs (u ''software'')) (JArr [])") (simp_all add: well_formed_report_def)
  have e: "encodable (py_str sv (obj_get kvs (u ''agent_id'')))"
    "bindable (py_or (obj_get kvs (u ''ip_address'')) JNull)"
    using assms by (simp_all add: well_formed_report_def)
  show ?thesis
    unfolding call_upsert_def o(1) s(1) dict_get_obj
    using upsert_ok [OF e(1) o(2-6) e(2) s(2)] by simp
qed

text \<open>
  Claim C10, as the code has it. For a request that decrypts to a JSON object: the response
  is \<^verbatim>\<open>agent_id_missing\<close> exactly when the field \<^verbatim>\<open>agent_id\<close> is absent or falsy (null, the empty
  string, 0 and false are; so are 0.0, the empty list and the empty object), and then
  nothing is written. A truthy value of any type passes the check. The response is then
  \<^verbatim>\<open>db_error\<close> with nothing written, or success with an agent row whose id is \<^verbatim>\<open>str\<close> of the
  value; it is success whenever the rest of the report is one the store takes.
\<close>

theorem agent_id_missing_iff:
  assumes "decrypted sv req = Some (JObj kvs)"
  shows "(fst (agent_report sv ts now d req) = JsonError (u ''agent_id_missing'') 400 \<longleftrightarrow>
            map_of kvs (u ''agent_id'') = None \<or>
            (\<exists>v. map_of kvs (u ''agent_id'') = Some v \<and> \<not> truthy v)) \<and>
         (fst (agent_report sv ts now d req) = JsonError (u ''agent_id_missing'') 400 \<longrightarrow>
            snd (agent_report sv ts now d req) = d) \<and>
         (\<forall>v. map_of kvs (u ''agent_id'') = Some v \<and> truthy v \<longrightarrow>
            (agent_report sv ts now d req = (JsonError (u ''db_error'') 500, d) \<or>
             (\<exists>d'. agent_report sv ts now d req = (JsonOk, d') \<and>
                   (\<exists>r\<in>set (agents d'). agent_id r = py_str sv v))) \<and>
            (well_formed_report sv kvs \<longrightarrow>
             (\<exists>d'. agent_report sv ts now d req = (JsonOk, d') \<and>
                   (\<exists>r\<in>set (agents d'). agent_id r = py_str sv v)))) \<and>
         \<not> truthy JNull \<and> \<not> truthy (JStr []) \<and> \<not> truthy (JInt 0) \<and> \<not> truthy (JBool False)"
proof -
  let ?v = "obj_get kvs (u ''agent_id'')"
  let ?call = "call_upsert sv ts now d ?v (py_or (obj_get kvs (u ''os_info'')) (JObj []))
                  (py_or (obj_get kvs (u ''ip_address'')) JNull)
                  (py_or (obj_get kvs (u ''software'')) (JArr []))"
  have ar: "agent_report sv ts now d req =
     (if \<not> truthy ?v then (JsonError (u ''agent_id_missing'') 400, d)
      else case ?call of Inl e \<Rightarrow> (JsonError (u ''db_error'') 500, d) | Inr d' \<Rightarrow> (JsonOk, d'))"
    unfolding agent_report_decrypted [OF assms] store_payload_obj ..
  have ra: "reported_agent sv req = py_str sv ?v"
    by (simp add: reported_agent_def assms)
  have ne: "JsonError (u ''db_error'') 500 \<noteq> JsonError (u ''agent_id_missing'') 400"
    by simp
  have falsy: "\<not> truthy ?v \<longleftrightarrow> map_of kvs (u ''agent_id'') = None \<or>
            (\<exists>v. map_of kvs (u ''agent_id'') = Some v \<and> \<not> truthy v)"
    by (cases "map_of kvs (u ''agent_id'')") (auto simp: obj_get_def)
  have 1: "fst (agent_report sv ts now d req) = JsonError (u ''agent_id_missing'') 400 \<longleftrightarrow>
           \<not> truthy ?v"
    using ne by (cases ?call) (auto simp: ar)
  have 2: "snd (agent_report sv ts now d req) = d" if "\<not> truthy ?v"
    using that by (simp add: ar)
  have ok: "\<exists>r\<in>set (agents d'). agent_id r = py_str sv ?v"
    if "agent_report sv ts now d req = (JsonOk, d')" for d'
    using accepted_software(2) [OF that] by (simp add: ra)
  have 3: "agent_report sv ts now d req = (JsonError (u ''db_error'') 500, d) \<or>
            (\<exists>d'. agent_report sv ts now d req = (JsonOk, d') \<and>
                  (\<exists>r\<in>set (agents d'). agent_id r = py_str sv v))"
    if v: "map_of kvs (u ''agent_id'') = Some v" "truthy v" for v
  proof -
    have e: "?v = v" using v by (simp add: obj_get_def)
    show ?thesis
    proof (cases ?call)
      case (Inl err)
      then show ?thesis using v e by (simp add: ar)
    next
      case (Inr d')
      then have "agent_report sv ts now d req = (JsonOk, d')" using v e by (simp add: ar)
      then show ?thesis using ok e by blast
    qed
  qed
  have 4: "\<exists>d'. agent_report sv ts now d req = (JsonOk, d') \<and>
                  (\<exists>r\<in>set (agents d'). agent_id r = py_str sv v)"
    if v: "map_of kvs (u ''agent_id'') = Some v" "truthy v" and w: "well_formed_report sv kvs" for v
  proof -
    have e: "?v = v" using v by (simp add: obj_get_def)
    obtain d' where "?call = Inr d'" using call_upsert_ok [OF w] by blast
    then have "agent_report sv ts now d req = (JsonOk, d')" using v e by (simp add: ar)
    then show ?thesis using ok e by blast
  qed
  show ?thesis
    using 1 2 3 4 falsy by simp
qed

lemma report_number:
  "agent_report demo_services 10 11 empty_db (Some number_id_request) = (JsonOk, db_number_id)"
proof -
  have "call_upsert demo_services 10 11 empty_db (JInt 5) (JObj []) JNull (JArr []) = Inr db_number_id"
    by (simp add: empty_db_def db_number_id_def store_eval str_int_def digits_of_numeral
        demo_services_def)
  then show ?thesis
    unfolding agent_report_decrypted [OF decrypted_number] store_payload_obj
    by (simp add: obj_get_def field_names py_or_def)
qed

lemma report_zero:
  "agent_report demo_services 10 11 empty_db (Some zero_id_request) =
   (JsonError (u ''agent_id_missing'') 400, empty_db)"
  unfolding agent_report_decrypted [OF decrypted_zero] store_payload_obj
  by (simp add: obj_get_def)

theorem agent_id_missing_iff_witness:
  "decrypted demo_services (Some number_id_request) = Some (JObj [(u ''agent_id'', JInt 5)]) \<and>
   map_of [(u ''agent_id'', JInt 5)] (u ''agent_id'') = Some (JInt 5) \<and> truthy (JInt 5) \<and>
   well_formed_report demo_services [(u ''agent_id'', JInt 5)] \<and>
   py_str demo_services (JInt 5) = u ''5'' \<and>
   agent_report demo_services 10 11 empty_db (Some number_id_request) = (JsonOk, db_number_id) \<and>
   (\<exists>r\<in>set (agents db_number_id). agent_id r = u ''5'') \<and>
   decrypted demo_services (Some zero_id_request) = Some (JObj [(u ''agent_id'', JInt 0)]) \<and>
   agent_report demo_services 10 11 empty_db (Some zero_id_request) =
     (JsonError (u ''agent_id_missing'') 400, empty_db)"
proof -
  have s5: "py_str demo_services (JInt 5) = u ''5''"
    by (simp add: py_str_def str_int_def digits_of_numeral u_simps)
  have w: "well_formed_report demo_services [(u ''agent_id'', JInt 5)]"
    by (simp add: well_formed_report_def s5 obj_get_def field_names py_or_def bindable_def
        bind_def encodable_def u_simps)
  note T = agent_id_missing_iff [OF decrypted_number, of 10 11 empty_db]
    and Z = agent_id_missing_iff [OF decrypted_zero, of 10 11 empty_db]
  show ?thesis
    using T Z w s5 decrypted_number decrypted_zero report_number report_zero
    by (simp add: db_number_id_def)
qed

text \<open>
  Claim C10 as stated, that every truthy \<^verbatim>\<open>agent_id\<close> is accepted and stored, fails: a
  report with the agent id \<^verbatim>\<open>a1\<close> whose \<^verbatim>\<open>software\<close> is the number 5 is answered \<^verbatim>\<open>db_error\<close>, and
  nothing is written.
\<close>

theorem agent_id_counterexample:
  "decrypted demo_services (Some bad_software_request) =
     Some (JObj [(u ''agent_id'', JStr (u ''a1'')), (u ''software'', JInt 5)]) \<and>
   truthy (JStr (u ''a1'')) \<and>
   agent_report demo_services 10 11 empty_db (Some bad_software_request) =
     (JsonError (u ''db_error'') 500, empty_db)"
proof -
  have "call_upsert demo_services 10 11 empty_db (JStr (u ''a1'')) (JObj []) JNull (JInt 5) =
        Inl TypeError"
    by (simp add: empty_db_def store_eval)
  then show ?thesis
    unfolding agent_report_decrypted [OF decrypted_bad_software] store_payload_obj
    by (simp add: decrypted_bad_software obj_get_def field_names py_or_def u_nonempty)
qed

section \<open>Verification: incremental watcher\<close>

lemma emit_fields [simp]: "stamp (emit m st) = stamp st" "harvests (emit m st) = harvests st"
  by (simp_all add: emit_def)











section \<open>Verification: aggregation\<close>



lemma set_uniq [simp]: "set (uniq xs) = set xs"
  by (simp add: uniq_def)

lemma distinct_uniq [simp]: "distinct (uniq xs)"
  by (simp add: uniq_def)







































lemma zip_assign_length:
  "length vs = length rs \<Longrightarrow> length (map (\<lambda>(r, v). r(c := v)) (zip rs vs)) = length rs"
  by simp































end
